theory Spec2Isabelle
  imports Complex_Main "HOL-Library.Char_ord" "HOL-Library.List_Lexorder" "HOL-Library.Multiset"
begin

section \<open>script-exporter: strings and names\<close>

text \<open>
  Go strings are modelled as \<open>string\<close>, one \<open>char\<close> per rune: the functions below are
  the ones the source applies rune by rune (\<open>strings.Map\<close>, \<open>strings.Fields\<close>,
  \<open>strings.TrimSpace\<close>), so the model is exact on text whose runes are single bytes.
\<close>

subsection \<open>makeValidPromName (main.go, metrics part, lines 339-353)\<close>

text \<open>
  The closure handed to \<open>strings.Map\<close> owns the counter \<open>i\<close>: it is incremented
  first, then the rune is tested. \<open>promNameRune i r\<close> is one call of the closure with
  the counter at \<open>i\<close> on entry; it returns the counter on exit and the rune produced.
\<close>

definition promNameRune :: "int \<Rightarrow> char \<Rightarrow> int \<times> char" where
  "promNameRune i0 r =
     (let i = i0 + 1 in
      if CHR ''a'' \<le> r \<and> r \<le> CHR ''z'' \<or> CHR ''A'' \<le> r \<and> r \<le> CHR ''Z'' \<or> r = CHR ''_''
        then (i, r)
      else if i > 0 \<and> CHR ''0'' \<le> r \<and> r \<le> CHR ''9''
        then (i, r)
      else (i, CHR ''_''))"

text \<open>\<open>strings.Map\<close>: the closure is called on each rune in order, threading \<open>i\<close>.\<close>

fun mapPromName :: "int \<Rightarrow> string \<Rightarrow> string" where
  "mapPromName i [] = []"
| "mapPromName i (r # rs) =
     (case promNameRune i r of (i', r') \<Rightarrow> r' # mapPromName i' rs)"

definition makeValidPromName :: "string \<Rightarrow> string" where
  "makeValidPromName s = mapPromName 0 s"

text \<open>The runes the closure lets through once the counter is positive.\<close>

definition promNameKeeps :: "char \<Rightarrow> bool" where
  "promNameKeeps r \<longleftrightarrow>
     CHR ''a'' \<le> r \<and> r \<le> CHR ''z'' \<or> CHR ''A'' \<le> r \<and> r \<le> CHR ''Z'' \<or> r = CHR ''_''
     \<or> CHR ''0'' \<le> r \<and> r \<le> CHR ''9''"

subsection \<open>Errors\<close>

text \<open>
  Go's \<open>error\<close> values, one constructor per error the sources build or pass on. The
  text of an error that a library produced is carried as a string.
\<close>

datatype exit_status = Exited nat | Signaled nat

datatype error =
    ErrStdoutPipe string         \<comment> \<open>"unable to create stdout pipe: %v"\<close>
  | ErrStderrPipe string         \<comment> \<open>"unable to create stderr pipe: %v"\<close>
  | ErrStart string              \<comment> \<open>"failed to start child: %v"\<close>
  | Canceled                     \<comment> \<open>context.Canceled\<close>
  | DeadlineExceeded             \<comment> \<open>context.DeadlineExceeded\<close>
  | ExitError exit_status        \<comment> \<open>what cmd.Wait returns for a nonzero exit or a signal\<close>
  | ErrGotStderr string          \<comment> \<open>"got stderr output: %v"\<close>
  | ErrTooManyRunning string int \<comment> \<open>"can't spawn a new instance of script '%s': already have %d running"\<close>
  | BadLine string               \<comment> \<open>"bad line: %s"\<close>
  | BadTimestamp string          \<comment> \<open>"bad timestamp: %s"\<close>
  | BadValue string              \<comment> \<open>"bad value: %s"\<close>
  | BadMetric string             \<comment> \<open>"bad metric: %s"\<close>
  | BadTag string string string  \<comment> \<open>"bad tag, metric %s: %v: %v"\<close>
  | ErrTooLong                   \<comment> \<open>bufio.ErrTooLong\<close>

subsection \<open>Text functions of the standard library used by the translation\<close>

text \<open>\<open>unicode.IsSpace\<close> on the runes up to U+00FF.\<close>

definition isSpace :: "char \<Rightarrow> bool" where
  "isSpace r \<longleftrightarrow>
     r \<in> {CHR 0x09, CHR 0x0A, CHR 0x0B, CHR 0x0C, CHR 0x0D, CHR '' '', CHR 0x85, CHR 0xA0}"

text \<open>
  \<open>strings.Fields\<close>: the maximal runs of non-space runes, in order. \<open>fieldsFrom cur s\<close>
  scans \<open>s\<close> with the field read so far in \<open>cur\<close>.
\<close>

fun fieldsFrom :: "string \<Rightarrow> string \<Rightarrow> string list" where
  "fieldsFrom cur [] = (if cur = [] then [] else [cur])"
| "fieldsFrom cur (r # rs) =
     (if isSpace r then (if cur = [] then fieldsFrom [] rs else cur # fieldsFrom [] rs)
      else fieldsFrom (cur @ [r]) rs)"

definition Fields :: "string \<Rightarrow> string list" where
  "Fields s = fieldsFrom [] s"

text \<open>\<open>strings.TrimSpace\<close>: leading and trailing space runes removed.\<close>

definition TrimSpace :: "string \<Rightarrow> string" where
  "TrimSpace s = rev (dropWhile isSpace (rev (dropWhile isSpace s)))"

text \<open>
  \<open>bufio.Scanner\<close> with the default split function \<open>bufio.ScanLines\<close>. The input is cut
  at each newline; a last line without newline counts when it is not empty.
  \<open>splitLines cur s\<close> scans \<open>s\<close> with the line read so far in \<open>cur\<close>. \<open>dropCR\<close> is the
  library's function of that name: one trailing carriage return is removed from a line.
\<close>

fun splitLines :: "string \<Rightarrow> string \<Rightarrow> string list" where
  "splitLines cur [] = (if cur = [] then [] else [cur])"
| "splitLines cur (r # rs) =
     (if r = CHR 0x0A then cur # splitLines [] rs else splitLines (cur @ [r]) rs)"

definition dropCR :: "string \<Rightarrow> string" where
  "dropCR l = (if l \<noteq> [] \<and> last l = CHR 0x0D then butlast l else l)"

text \<open>
  The scanner's buffer holds at most \<open>bufio.MaxScanTokenSize\<close> bytes: \<open>Scan\<close> stops and
  \<open>Err\<close> returns \<open>bufio.ErrTooLong\<close> at the first line that does not fit, that is, whose
  bytes before the newline number \<open>MaxScanTokenSize\<close> or more. A rune below U+0080 is one
  byte of the input, the others up to U+00FF are two.
\<close>

definition MaxScanTokenSize :: nat where
  "MaxScanTokenSize = 64 * 1024"

definition byteLen :: "string \<Rightarrow> nat" where
  "byteLen s = sum_list (map (\<lambda>r. if r < CHR 0x80 then 1 else 2) s)"

section \<open>Translation of OpenTSDB text (main.go, metrics part)\<close>

subsection \<open>Data\<close>

text \<open>
  \<open>opentsdb.TagSet\<close> is a Go map from tag key to tag value; it is modelled by the list
  of its entries. \<open>opentsdb.DataPoint\<close> has the fields the source sets; its \<open>Value\<close> is
  an \<open>interface{}\<close>, here the alternatives of the type switch of \<open>dpointsToMetrics\<close>.
  The type \<open>'v\<close> stands for \<open>float64\<close>, whose values the translation only passes on.
\<close>

type_synonym TagSet = "(string \<times> string) list"

datatype 'v dvalue = VFloat64 'v | VInt int | VInt32 int | VInt64 int | VOther

record 'v DataPoint =
  Metric :: string
  Timestamp :: int
  Value :: "'v dvalue"
  Tags :: TagSet

text \<open>
  A \<open>prometheus.Metric\<close> made by \<open>MustNewConstMetric\<close>: the arguments of \<open>NewDesc\<close>
  (name, help, variable labels, constant labels), the value type and the value.
\<close>

datatype ValueType = CounterValue | GaugeValue | UntypedValue

record 'v PromMetric =
  fqName :: string
  helpText :: string
  variableLabels :: "string list"
  constLabels :: "string \<rightharpoonup> string"
  valueType :: ValueType
  val :: 'v

subsection \<open>Functions of other packages\<close>

text \<open>
  The translation calls functions whose code is not part of this repository. They are
  parameters of the model:
  \<^item> \<open>ParseInt s\<close> is \<open>strconv.ParseInt(s, 10, 64)\<close>, \<open>None\<close> when it returns an error;
  \<^item> \<open>ParseFloat s\<close> is \<open>strconv.ParseFloat(s, 64)\<close>, \<open>None\<close> when it returns an error;
  \<^item> \<open>floatOfInt\<close> is the conversion \<open>float64(x)\<close> and \<open>floatZero\<close> the zero value of
    \<open>float64\<close>;
  \<^item> \<open>ValidTSDBString\<close> and \<open>ParseTags\<close> are the functions of \<open>bosun.org/opentsdb\<close>;
    \<open>ParseTags\<close> returns \<open>Inl\<close> with the error's text when its error is not nil;
  \<^item> \<open>rangeOrder\<close> is the order in which a \<open>range\<close> loop visits the entries of a map,
    which Go leaves unspecified.
\<close>

record 'v extern =
  ParseInt :: "string \<Rightarrow> int option"
  ParseFloat :: "string \<Rightarrow> 'v option"
  floatOfInt :: "int \<Rightarrow> 'v"
  floatZero :: 'v
  ValidTSDBString :: "string \<Rightarrow> bool"
  ParseTags :: "string \<Rightarrow> string + TagSet"
  rangeOrder :: "TagSet \<Rightarrow> TagSet"

text \<open>A \<open>range\<close> loop visits every entry of the map once.\<close>

definition range_visits_all :: "'v extern \<Rightarrow> bool" where
  "range_visits_all L \<longleftrightarrow> (\<forall>ts. mset (rangeOrder L ts) = mset ts)"

text \<open>
  \<open>TagSet.Merge\<close> of \<open>bosun.org/opentsdb\<close>: \<open>for k, v := range o { t[k] = v }\<close>. The
  assignment \<open>t[k] = v\<close> replaces the value of an existing key and adds a new one
  otherwise.
\<close>

fun setTag :: "string \<Rightarrow> string \<Rightarrow> TagSet \<Rightarrow> TagSet" where
  "setTag k v [] = [(k, v)]"
| "setTag k v ((k', v') # t) = (if k' = k then (k, v) # t else (k', v') # setTag k v t)"

definition Merge :: "'v extern \<Rightarrow> TagSet \<Rightarrow> TagSet \<Rightarrow> TagSet" where
  "Merge L t o' = foldl (\<lambda>t (k, v). setTag k v t) t (rangeOrder L o')"

subsection \<open>parseTcollectorValue (lines 389-420)\<close>

text \<open>The loop over \<open>sp[3:]\<close>; \<open>m\<close> is \<open>sp[0]\<close>, which the error names.\<close>

fun parseTagTokens :: "'v extern \<Rightarrow> string \<Rightarrow> string list \<Rightarrow> TagSet \<Rightarrow> error + TagSet" where
  "parseTagTokens L m [] tags = Inr tags"
| "parseTagTokens L m (tag # rest) tags =
     (case ParseTags L tag of
        Inl err \<Rightarrow> Inl (BadTag m tag err)
      | Inr ts \<Rightarrow> parseTagTokens L m rest (Merge L tags ts))"

definition parseTcollectorValue :: "'v extern \<Rightarrow> string \<Rightarrow> error + 'v DataPoint" where
  "parseTcollectorValue L line =
     (let sp = Fields line in
      if length sp < 3 then Inl (BadLine line)
      else case ParseInt L (sp ! 1) of
        None \<Rightarrow> Inl (BadTimestamp (sp ! 1))
      | Some ts \<Rightarrow>
      (case ParseFloat L (sp ! 2) of
        None \<Rightarrow> Inl (BadValue (sp ! 2))
      | Some v \<Rightarrow>
      if \<not> ValidTSDBString L (sp ! 0) then Inl (BadMetric (sp ! 0))
      else (case parseTagTokens L (sp ! 0) (drop 3 sp) [] of
        Inl e \<Rightarrow> Inl e
      | Inr tags \<Rightarrow>
          Inr \<lparr>Metric = sp ! 0, Timestamp = ts, Value = VFloat64 v, Tags = tags\<rparr>)))"

subsection \<open>dpointsToMetrics (lines 356-385)\<close>

text \<open>The inner loop: \<open>labels[makeValidPromName(k)] = v\<close> for each tag in range order.\<close>

fun setLabel :: "(string \<rightharpoonup> string) \<Rightarrow> string \<times> string \<Rightarrow> (string \<rightharpoonup> string)" where
  "setLabel labels (k, v) = labels(makeValidPromName k \<mapsto> v)"

definition tagLabels :: "'v extern \<Rightarrow> TagSet \<Rightarrow> (string \<rightharpoonup> string)" where
  "tagLabels L tags = foldl setLabel Map.empty (rangeOrder L tags)"

text \<open>The type switch on \<open>dpoint.Value\<close>; \<open>v\<close> keeps its zero value in any other case.\<close>

fun valueFloat :: "'v extern \<Rightarrow> 'v dvalue \<Rightarrow> 'v" where
  "valueFloat L (VFloat64 x) = x"
| "valueFloat L (VInt x) = floatOfInt L x"
| "valueFloat L (VInt32 x) = floatOfInt L x"
| "valueFloat L (VInt64 x) = floatOfInt L x"
| "valueFloat L VOther = floatZero L"

definition dpointMetric :: "'v extern \<Rightarrow> 'v DataPoint \<Rightarrow> 'v PromMetric" where
  "dpointMetric L dpoint =
     \<lparr>fqName = makeValidPromName (Metric dpoint), helpText = ''help'', variableLabels = [],
      constLabels = tagLabels L (Tags dpoint), valueType = GaugeValue,
      val = valueFloat L (Value dpoint)\<rparr>"

definition dpointsToMetrics ::
  "'v extern \<Rightarrow> 'v DataPoint list \<Rightarrow> 'v PromMetric list \<times> error option" where
  "dpointsToMetrics L dpoints = (map (dpointMetric L) dpoints, None)"

subsection \<open>translateOpenTsdb (lines 313-334)\<close>

text \<open>
  The loop \<open>for scanner.Scan()\<close>: \<open>raws\<close> are the lines of the input not yet scanned and
  \<open>dpoints\<close> the data points appended so far. When \<open>Scan\<close> returns false the loop ends, and
  \<open>scanner.Err()\<close> is \<open>ErrTooLong\<close> if a line did not fit the buffer, nil at the end of
  the input.
\<close>

fun scanLoop ::
  "'v extern \<Rightarrow> string list \<Rightarrow> 'v DataPoint list \<Rightarrow> 'v PromMetric list \<times> error option" where
  "scanLoop L [] dpoints = dpointsToMetrics L dpoints"
| "scanLoop L (raw # raws) dpoints =
     (if MaxScanTokenSize \<le> byteLen raw then ([], Some ErrTooLong)
      else let line = dropCR raw in
        if TrimSpace line = [] then scanLoop L raws dpoints
        else (case parseTcollectorValue L line of
                Inl err \<Rightarrow> ([], Some err)
              | Inr dpoint \<Rightarrow> scanLoop L raws (dpoints @ [dpoint])))"

definition translateOpenTsdb :: "'v extern \<Rightarrow> string \<Rightarrow> 'v PromMetric list \<times> error option" where
  "translateOpenTsdb L input = scanLoop L (splitLines [] input) []"

subsection \<open>Notions used to state the properties of the translation\<close>

text \<open>
  The lines of an input text as the loop of \<open>translateOpenTsdb\<close> sees them, a blank
  line being one the loop skips, and the condition that no line overflows the scanner.
\<close>

definition inputLines :: "string \<Rightarrow> string list" where
  "inputLines input = map dropCR (splitLines [] input)"

definition blank :: "string \<Rightarrow> bool" where
  "blank l \<longleftrightarrow> TrimSpace l = []"

definition fitsScanner :: "string \<Rightarrow> bool" where
  "fitsScanner input \<longleftrightarrow> (\<forall>raw \<in> set (splitLines [] input). byteLen raw < MaxScanTokenSize)"

text \<open>\<open>describes e l\<close>: the error \<open>e\<close> quotes the line \<open>l\<close> or the field of it at fault.\<close>

fun describes :: "error \<Rightarrow> string \<Rightarrow> bool" where
  "describes (BadLine s) l = (s = l)"
| "describes (BadTimestamp s) l = (3 \<le> length (Fields l) \<and> s = Fields l ! 1)"
| "describes (BadValue s) l = (3 \<le> length (Fields l) \<and> s = Fields l ! 2)"
| "describes (BadMetric s) l = (3 \<le> length (Fields l) \<and> s = Fields l ! 0)"
| "describes (BadTag m tag err) l =
     (3 \<le> length (Fields l) \<and> m = Fields l ! 0 \<and> tag \<in> set (drop 3 (Fields l)))"
| "describes _ l = False"

text \<open>
  A line fails to parse, in the words of the specification: it has fewer than three
  fields, or its timestamp does not parse as an integer, or its value does not parse as
  a floating-point number, or its metric name is not valid, or one of its tag tokens is
  malformed.
\<close>

definition lineFails :: "'v extern \<Rightarrow> string \<Rightarrow> bool" where
  "lineFails L l \<longleftrightarrow>
     length (Fields l) < 3
     \<or> ParseInt L (Fields l ! 1) = None
     \<or> ParseFloat L (Fields l ! 2) = None
     \<or> \<not> ValidTSDBString L (Fields l ! 0)
     \<or> list_ex (\<lambda>tag. isl (ParseTags L tag)) (drop 3 (Fields l))"

text \<open>
  \<open>blames L e l\<close>: the error \<open>e\<close> names a defect that the line \<open>l\<close> has, and quotes the
  line or the field at fault.
\<close>

fun blames :: "'v extern \<Rightarrow> error \<Rightarrow> string \<Rightarrow> bool" where
  "blames L (BadLine s) l = (length (Fields l) < 3 \<and> s = l)"
| "blames L (BadTimestamp s) l =
     (3 \<le> length (Fields l) \<and> s = Fields l ! 1 \<and> ParseInt L s = None)"
| "blames L (BadValue s) l =
     (3 \<le> length (Fields l) \<and> s = Fields l ! 2 \<and> ParseFloat L s = None)"
| "blames L (BadMetric s) l =
     (3 \<le> length (Fields l) \<and> s = Fields l ! 0 \<and> \<not> ValidTSDBString L s)"
| "blames L (BadTag m tag err) l =
     (3 \<le> length (Fields l) \<and> m = Fields l ! 0 \<and> tag \<in> set (drop 3 (Fields l))
      \<and> ParseTags L tag = Inl err)"
| "blames L _ l = False"

text \<open>
  The tags of a token, that is, what \<open>ParseTags\<close> returns for it, and the tags of a
  line: those of its fields after the third.
\<close>

definition tagsOf :: "'v extern \<Rightarrow> string \<Rightarrow> TagSet" where
  "tagsOf L tag = (case ParseTags L tag of Inl err \<Rightarrow> [] | Inr ts \<Rightarrow> ts)"

definition lineTags :: "'v extern \<Rightarrow> string \<Rightarrow> TagSet" where
  "lineTags L line = concat (map (tagsOf L) (drop 3 (Fields line)))"

text \<open>
  Two lines that differ in their timestamp field at most: the same line, or the same
  fields but for the second, which \<open>ParseInt\<close> accepts in both.
\<close>

definition sameExceptTimestamp :: "'v extern \<Rightarrow> string \<Rightarrow> string \<Rightarrow> bool" where
  "sameExceptTimestamp L l1 l2 \<longleftrightarrow>
     l1 = l2 \<or>
     (case (Fields l1, Fields l2) of
        (m1 # t1 # rest1, m2 # t2 # rest2) \<Rightarrow>
          m1 = m2 \<and> rest1 = rest2 \<and> ParseInt L t1 \<noteq> None \<and> ParseInt L t2 \<noteq> None
      | _ \<Rightarrow> False)"

subsection \<open>An instance of the functions of other packages, for evaluating examples\<close>

text \<open>
  \<open>strconv.ParseInt(s, 10, 64)\<close>: an optional sign, then one or more decimal digits, the
  value within 64 bits.
\<close>

definition digitVal :: "char \<Rightarrow> nat option" where
  "digitVal r = (if CHR ''0'' \<le> r \<and> r \<le> CHR ''9'' then Some (of_char r - 48) else None)"

fun parseDigits :: "nat \<Rightarrow> string \<Rightarrow> nat option" where
  "parseDigits n [] = Some n"
| "parseDigits n (r # rs) =
     (case digitVal r of None \<Rightarrow> None | Some d \<Rightarrow> parseDigits (10 * n + d) rs)"

definition refParseInt :: "string \<Rightarrow> int option" where
  "refParseInt s =
     (let neg = (s \<noteq> [] \<and> hd s = CHR ''-'');
          ds = (if s \<noteq> [] \<and> (hd s = CHR ''+'' \<or> hd s = CHR ''-'') then tl s else s)
      in if ds = [] then None
         else case parseDigits 0 ds of
           None \<Rightarrow> None
         | Some n \<Rightarrow>
             (let x = (if neg then - int n else int n)
              in if - (2 ^ 63) \<le> x \<and> x < 2 ^ 63 then Some x else None))"

text \<open>
  \<open>strconv.ParseFloat\<close> on decimal integer literals, read as reals; it stands in for
  the library on the numbers of the examples, which \<open>float64\<close> represents exactly.
\<close>

definition refParseFloat :: "string \<Rightarrow> real option" where
  "refParseFloat s = map_option real_of_int (refParseInt s)"

text \<open>
  \<open>opentsdb.ValidTSDBString\<close>: a non-empty string of ASCII letters, digits and the
  characters \<open>- _ . /\<close>.
\<close>

definition refValidTSDBString :: "string \<Rightarrow> bool" where
  "refValidTSDBString s \<longleftrightarrow>
     s \<noteq> [] \<and> (\<forall>r \<in> set s. promNameKeeps r \<or> r \<in> {CHR ''-'', CHR ''.'', CHR ''/''})"

text \<open>
  \<open>opentsdb.ParseTags\<close> on a token without comma: \<open>key=value\<close>, cut at the first equals
  sign, with a valid key and a non-empty value.
\<close>

definition refParseTags :: "string \<Rightarrow> string + TagSet" where
  "refParseTags t =
     (let k = takeWhile (\<lambda>r. r \<noteq> CHR ''='') t; v = drop (length k + 1) t
      in if length k = length t \<or> v = [] \<or> k = [] \<or> CHR '','' \<in> set t
           then Inl (''opentsdb: bad tag: '' @ t)
         else if \<not> refValidTSDBString k then Inl (''invalid character in '' @ k)
         else Inr [(k, v)])"

definition refLib :: "real extern" where
  "refLib = \<lparr>ParseInt = refParseInt, ParseFloat = refParseFloat, floatOfInt = real_of_int,
     floatZero = 0, ValidTSDBString = refValidTSDBString, ParseTags = refParseTags,
     rangeOrder = (\<lambda>ts. ts)\<rparr>"

text \<open>A line that parses but does not fit the scanner's buffer.\<close>

definition overlongLine :: string where
  "overlongLine = ''a 1 2'' @ replicate MaxScanTokenSize (CHR '' '')"

text \<open>The line \<open>a 1 2\<close> with its timestamp written with leading zeros.\<close>

definition paddedTimestampLine :: string where
  "paddedTimestampLine = ''a '' @ replicate MaxScanTokenSize (CHR ''0'') @ ''1 2''"

section \<open>The gatherer of parsed metric families (main.go, metrics part, lines 276-290)\<close>

text \<open>
  The types of \<open>client_model\<close> as far as \<open>Gather\<close> reads them: a \<open>dto.LabelPair\<close> has a
  name and a value, a \<open>dto.Metric\<close> its label pairs and the rest (\<open>'p\<close>: gauge, counter,
  timestamp and so on), a \<open>dto.MetricFamily\<close> a name, the rest (\<open>'q\<close>: help and type) and
  its metrics.
\<close>

record LabelPair =
  lpName :: string
  lpValue :: string

record 'p DtoMetric =
  Label :: "LabelPair list"
  metricRest :: 'p

record ('p, 'q) MetricFamily =
  famName :: string
  famRest :: 'q
  famMetric :: "'p DtoMetric list"

text \<open>
  \<open>sort.Sort(prometheus.LabelPairSorter(fam.Metric[i].Label))\<close>: the label pairs in
  ascending order of their names, strings being compared as Go compares them, rune by
  rune. \<open>sort.Sort\<close> does not promise the order of pairs with the same name; the model
  keeps them in their order.
\<close>

definition sortLabels :: "'p DtoMetric \<Rightarrow> 'p DtoMetric" where
  "sortLabels m = m\<lparr>Label := sort_key lpName (Label m)\<rparr>"

definition sortFamily :: "('p, 'q) MetricFamily \<Rightarrow> ('p, 'q) MetricFamily" where
  "sortFamily fam = fam\<lparr>famMetric := map sortLabels (famMetric fam)\<rparr>"

text \<open>
  A \<open>regatherer\<close> is a Go map from family name to family. It is modelled by the list of
  its entries in the order in which the \<open>range\<close> loop of \<open>Gather\<close> visits them.
\<close>

type_synonym ('p, 'q) regatherer = "(string \<times> ('p, 'q) MetricFamily) list"

fun gatherLoop ::
  "('p, 'q) regatherer \<Rightarrow> ('p, 'q) MetricFamily list \<Rightarrow> ('p, 'q) MetricFamily list" where
  "gatherLoop [] fams = fams"
| "gatherLoop ((name, fam) # r) fams = gatherLoop r (fams @ [sortFamily fam])"

definition Gather :: "('p, 'q) regatherer \<Rightarrow> ('p, 'q) MetricFamily list \<times> error option" where
  "Gather r = (gatherLoop r [], None)"

text \<open>An example of a parse result: one family with one metric of three labels.\<close>

definition exampleFamilies :: "(unit, unit) regatherer" where
  "exampleFamilies =
     [(''up'', \<lparr>famName = ''up'', famRest = (),
        famMetric = [\<lparr>Label = [\<lparr>lpName = ''job'', lpValue = ''x''\<rparr>,
                               \<lparr>lpName = ''zone'', lpValue = ''z''\<rparr>,
                               \<lparr>lpName = ''host'', lpValue = ''h''\<rparr>], metricRest = ()\<rparr>]\<rparr>)]"

section \<open>Running a command (runCommand, lines 16-83 of its file)\<close>

text \<open>
  What the environment does during one call of \<open>runCommand\<close>. Either one of the three
  calls \<open>cmd.StdoutPipe\<close>, \<open>cmd.StderrPipe\<close>, \<open>cmd.Start\<close> fails, with the library's error
  text, or the child runs. A run is described by
  \<^item> \<open>selects\<close>: the cases that the \<open>select\<close> statement of the waiting loop takes, in order:
    the context is done, or one of the two copying goroutines has finished;
  \<^item> \<open>firedUnseen\<close>: the context becomes done before \<open>cmd.Wait\<close> returns without the
    \<open>select\<close> ever taking that case, because the loop has ended by then or takes its
    other case;
  \<^item> \<open>ctxCause\<close>: what \<open>ctx.Err()\<close> returns once the context is done;
  \<^item> \<open>exitStatus\<close>: the state in which the child ends, \<open>None\<close> if it never ends, so that
    \<open>cmd.Wait\<close> does not return;
  \<^item> \<open>stdoutBuf\<close> and \<open>stderrBuf\<close>: the contents of the two buffers when \<open>runCommand\<close>
    reads them.
\<close>

datatype select_case = CtxDone | ChDone

datatype ctx_cause = ByCancel | ByDeadline

record run =
  selects :: "select_case list"
  firedUnseen :: bool
  ctxCause :: ctx_cause
  exitStatus :: "exit_status option"
  stdoutBuf :: string
  stderrBuf :: string

datatype invocation =
    StdoutPipeFails string
  | StderrPipeFails string
  | StartFails string
  | Started run

fun ctxErr :: "ctx_cause \<Rightarrow> error" where
  "ctxErr ByCancel = Canceled"
| "ctxErr ByDeadline = DeadlineExceeded"

text \<open>
  \<open>cmd.Wait\<close> returns nil when the child exited with status 0 and an \<open>*exec.ExitError\<close>
  when it exited with another status or was ended by a signal.
\<close>

definition cmdWait :: "exit_status \<Rightarrow> error option" where
  "cmdWait st = (if st = Exited 0 then None else Some (ExitError st))"

text \<open>
  The loop \<open>for !ctxdone && closed < 2 { select ... }\<close>. It returns the final values of
  \<open>closed\<close> (here \<open>nclosed\<close>) and \<open>ctxdone\<close>; when no case of the \<open>select\<close> ever becomes ready again the
  loop blocks for ever, which is the value \<open>None\<close>.
\<close>

fun waitLoop :: "select_case list \<Rightarrow> nat \<Rightarrow> bool \<Rightarrow> (nat \<times> bool) option" where
  "waitLoop [] nclosed ctxdone =
     (if \<not> ctxdone \<and> nclosed < 2 then None else Some (nclosed, ctxdone))"
| "waitLoop (c # cs) nclosed ctxdone =
     (if \<not> ctxdone \<and> nclosed < 2
      then (case c of CtxDone \<Rightarrow> waitLoop cs nclosed True
                    | ChDone \<Rightarrow> waitLoop cs (nclosed + 1) ctxdone)
      else Some (nclosed, ctxdone))"

text \<open>\<open>runCommand\<close> returns its pair of results, or does not return (\<open>None\<close>).\<close>

definition runStarted :: "run \<Rightarrow> (string \<times> error option) option" where
  "runStarted r =
     (case waitLoop (selects r) 0 False of
        None \<Rightarrow> None
      | Some (nclosed, ctxdone) \<Rightarrow>
      (case exitStatus r of
        None \<Rightarrow> None
      | Some st \<Rightarrow>
          (let err = cmdWait st;
               err = (if ctxdone then Some (ctxErr (ctxCause r)) else err);
               err = (if err = None \<and> length (stderrBuf r) \<noteq> 0
                      then Some (ErrGotStderr (stderrBuf r)) else err)
           in Some (stdoutBuf r, err))))"

fun runCommand :: "invocation \<Rightarrow> (string \<times> error option) option" where
  "runCommand (StdoutPipeFails e) = Some ([], Some (ErrStdoutPipe e))"
| "runCommand (StderrPipeFails e) = Some ([], Some (ErrStderrPipe e))"
| "runCommand (StartFails e) = Some ([], Some (ErrStart e))"
| "runCommand (Started r) = runStarted r"

text \<open>The waiting loop saw the context done: its \<open>select\<close> took that case.\<close>

definition ctxObserved :: "run \<Rightarrow> bool" where
  "ctxObserved r =
     (case waitLoop (selects r) 0 False of None \<Rightarrow> False | Some (nclosed, ctxdone) \<Rightarrow> ctxdone)"

text \<open>The cancellation or deadline token fired during the call, seen by the loop or not.\<close>

definition tokenFired :: "run \<Rightarrow> bool" where
  "tokenFired r \<longleftrightarrow> ctxObserved r \<or> firedUnseen r"

text \<open>
  The classes of results of the specification, and the class that its four rules give
  from whether the token fired, whether the process exited nonzero or by a signal, and
  whether the buffer of the standard error is non-empty.
\<close>

datatype result_class = Success | ExecutionFailed | CancelledOrTimedOut

fun classOf :: "error option \<Rightarrow> result_class" where
  "classOf None = Success"
| "classOf (Some Canceled) = CancelledOrTimedOut"
| "classOf (Some DeadlineExceeded) = CancelledOrTimedOut"
| "classOf (Some e) = ExecutionFailed"

definition specClass :: "bool \<Rightarrow> bool \<Rightarrow> bool \<Rightarrow> result_class" where
  "specClass fired failedExit stderrNonEmpty =
     (if fired then CancelledOrTimedOut
      else if failedExit then ExecutionFailed
      else if stderrNonEmpty then ExecutionFailed
      else Success)"

section \<open>The dispatcher (main.go, lines 62-191)\<close>

text \<open>
  A \<open>runresult\<close> is the pair of the output and the error. Each request that \<open>ServeHTTP\<close>
  makes is followed through the code that is responsible for it at the moment: the
  handler that waits to hand it to \<open>Start\<close>, the loop of \<open>Start\<close> line by line, the
  goroutine that \<open>Start\<close> launches for it line by line, and the handler again once it
  has its result. The phases name the next line to be executed for the request.
\<close>

type_synonym runresult = "string \<times> error option"

datatype phase =
    Waiting              \<comment> \<open>\<open>ServeHTTP\<close> blocked in \<open>sh.reqchan <- runreq{...}\<close>, line 134\<close>
  | A_lock1              \<comment> \<open>received by \<open>Start\<close>; next is line 149, \<open>sh.mtx.Lock()\<close>\<close>
  | A_read               \<comment> \<open>line 150, \<open>curChildCount := sh.numChildren[req.script]\<close>\<close>
  | A_unlock1 int        \<comment> \<open>line 151, \<open>sh.mtx.Unlock()\<close>; the argument is \<open>curChildCount\<close>\<close>
  | A_check int          \<comment> \<open>line 153, \<open>if curChildCount >= sh.scriptWorkers\<close>\<close>
  | A_lock2              \<comment> \<open>line 160, \<open>sh.mtx.Lock()\<close>\<close>
  | A_inc                \<comment> \<open>line 161, \<open>sh.numChildren[req.script]++\<close>\<close>
  | A_unlock2            \<comment> \<open>line 162, \<open>sh.mtx.Unlock()\<close>\<close>
  | A_spawn              \<comment> \<open>lines 164-166, \<open>mRunning\<close> and \<open>go func\<close>\<close>
  | T_begin              \<comment> \<open>lines 167-172, \<open>mRuns\<close> and the call of \<open>runCommand\<close>\<close>
  | T_run                \<comment> \<open>\<open>runCommand\<close> is running\<close>
  | T_lock runresult     \<comment> \<open>line 183, \<open>sh.mtx.Lock()\<close>; the argument is \<open>output, err\<close>\<close>
  | T_dec runresult      \<comment> \<open>line 184, \<open>sh.numChildren[req.script]--\<close>\<close>
  | T_unlock runresult   \<comment> \<open>line 185, \<open>sh.mtx.Unlock()\<close>\<close>
  | T_send runresult     \<comment> \<open>lines 186-188, \<open>mRunning\<close> and \<open>req.result <- runresult{...}\<close>\<close>
  | Delivered            \<comment> \<open>\<open>ServeHTTP\<close> has received from \<open>reschan\<close>, line 135\<close>

text \<open>
  A request: its script, its phase, the results sent on its channel \<open>result\<close> so far,
  and the number of calls of \<open>runCommand\<close> made for it so far.
\<close>

record request =
  script :: string
  phase :: phase
  slot :: "runresult list"
  runs :: nat

text \<open>
  The \<open>ScriptHandler\<close> with the counters of the package: \<open>scriptWorkers\<close> and
  \<open>numChildren\<close> as in the source (a missing key of the Go map reads as 0); \<open>mtx\<close> is the
  request for which the mutex is held, if any; \<open>curReq\<close> is the variable \<open>req\<close> of \<open>Start\<close>,
  \<open>None\<close> while \<open>Start\<close> waits in \<open>range sh.reqchan\<close>; \<open>reqs\<close> are the requests made so
  far. The counter \<open>mDuration\<close>, a sum of floating-point durations, is left out.
\<close>

record ScriptHandler =
  scriptWorkers :: int
  numChildren :: "string \<Rightarrow> int"
  mtx :: "nat option"
  curReq :: "nat option"
  reqs :: "request list"
  mConcExceeds :: "string \<Rightarrow> nat"
  mRuns :: "string \<Rightarrow> nat"
  mErrors :: "string \<Rightarrow> nat"
  mTimeouts :: "string \<Rightarrow> nat"
  mRunning :: "string \<Rightarrow> int"

definition NewScriptHandler :: "int \<Rightarrow> ScriptHandler" where
  "NewScriptHandler workers =
     \<lparr>scriptWorkers = workers, numChildren = (\<lambda>x. 0), mtx = None, curReq = None, reqs = [],
      mConcExceeds = (\<lambda>x. 0), mRuns = (\<lambda>x. 0), mErrors = (\<lambda>x. 0), mTimeouts = (\<lambda>x. 0),
      mRunning = (\<lambda>x. 0)\<rparr>"

definition setPhase :: "nat \<Rightarrow> phase \<Rightarrow> ScriptHandler \<Rightarrow> ScriptHandler" where
  "setPhase i ph s = s\<lparr>reqs := (reqs s)[i := (reqs s ! i)\<lparr>phase := ph\<rparr>]\<rparr>"

text \<open>\<open>req.result <- res\<close>: the handler of the request, blocked in line 135, receives.\<close>

definition sendResult :: "nat \<Rightarrow> runresult \<Rightarrow> ScriptHandler \<Rightarrow> ScriptHandler" where
  "sendResult i res s =
     s\<lparr>reqs := (reqs s)[i := (reqs s ! i)\<lparr>slot := slot (reqs s ! i) @ [res], phase := Delivered\<rparr>]\<rparr>"

text \<open>One step of \<open>Start\<close> for the request \<open>i\<close> it has received; \<open>None\<close> when it blocks.\<close>

definition loopStep :: "nat \<Rightarrow> ScriptHandler \<Rightarrow> ScriptHandler option" where
  "loopStep i s =
     (let x = script (reqs s ! i) in
      case phase (reqs s ! i) of
        A_lock1 \<Rightarrow> if mtx s = None then Some (setPhase i A_read (s\<lparr>mtx := Some i\<rparr>)) else None
      | A_read \<Rightarrow> Some (setPhase i (A_unlock1 (numChildren s x)) s)
      | A_unlock1 c \<Rightarrow> Some (setPhase i (A_check c) (s\<lparr>mtx := None\<rparr>))
      | A_check c \<Rightarrow>
          if c \<ge> scriptWorkers s
          then Some (sendResult i ([], Some (ErrTooManyRunning x c))
                 (s\<lparr>mConcExceeds := (mConcExceeds s)(x := mConcExceeds s x + 1), curReq := None\<rparr>))
          else Some (setPhase i A_lock2 s)
      | A_lock2 \<Rightarrow> if mtx s = None then Some (setPhase i A_inc (s\<lparr>mtx := Some i\<rparr>)) else None
      | A_inc \<Rightarrow>
          Some (setPhase i A_unlock2 (s\<lparr>numChildren := (numChildren s)(x := numChildren s x + 1)\<rparr>))
      | A_unlock2 \<Rightarrow> Some (setPhase i A_spawn (s\<lparr>mtx := None\<rparr>))
      | A_spawn \<Rightarrow>
          Some (setPhase i T_begin
                 (s\<lparr>mRunning := (mRunning s)(x := mRunning s x + 1), curReq := None\<rparr>))
      | _ \<Rightarrow> None)"

text \<open>
  One step of the goroutine of the request \<open>i\<close>, other than the return of \<open>runCommand\<close>;
  \<open>None\<close> when it blocks or when there is no such goroutine.
\<close>

definition taskStep :: "nat \<Rightarrow> ScriptHandler \<Rightarrow> ScriptHandler option" where
  "taskStep i s =
     (let x = script (reqs s ! i) in
      case phase (reqs s ! i) of
        T_begin \<Rightarrow>
          Some (s\<lparr>mRuns := (mRuns s)(x := mRuns s x + 1),
                  reqs := (reqs s)[i := (reqs s ! i)\<lparr>phase := T_run, runs := runs (reqs s ! i) + 1\<rparr>]\<rparr>)
      | T_lock res \<Rightarrow> if mtx s = None then Some (setPhase i (T_dec res) (s\<lparr>mtx := Some i\<rparr>)) else None
      | T_dec res \<Rightarrow>
          Some (setPhase i (T_unlock res)
                 (s\<lparr>numChildren := (numChildren s)(x := numChildren s x - 1)\<rparr>))
      | T_unlock res \<Rightarrow> Some (setPhase i (T_send res) (s\<lparr>mtx := None\<rparr>))
      | T_send res \<Rightarrow>
          Some (sendResult i res (s\<lparr>mRunning := (mRunning s)(x := mRunning s x - 1)\<rparr>))
      | _ \<Rightarrow> None)"

text \<open>
  \<open>runCommand\<close> returns in the goroutine of the request \<open>i\<close>, for the invocation \<open>call\<close>
  that the environment makes of it: lines 172-181.
\<close>

definition finishStep :: "nat \<Rightarrow> invocation \<Rightarrow> ScriptHandler \<Rightarrow> ScriptHandler option" where
  "finishStep i call s =
     (let x = script (reqs s ! i) in
      if phase (reqs s ! i) \<noteq> T_run then None
      else case runCommand call of
        None \<Rightarrow> None
      | Some (output, err) \<Rightarrow>
          Some (setPhase i (T_lock (output, err))
                 (s\<lparr>mErrors := (if err \<noteq> None then (mErrors s)(x := mErrors s x + 1) else mErrors s),
                    mTimeouts := (if err = Some DeadlineExceeded
                                  then (mTimeouts s)(x := mTimeouts s x + 1) else mTimeouts s)\<rparr>)))"

text \<open>
  The steps of the system: a request for a script arrives at \<open>ServeHTTP\<close> (with an empty
  script name \<open>ServeHTTP\<close> makes no request); \<open>Start\<close> receives the waiting request \<open>i\<close>;
  \<open>Start\<close> executes its next line; the goroutine of request \<open>i\<close> executes its next line;
  \<open>runCommand\<close> returns in the goroutine of request \<open>i\<close>.
\<close>

datatype action = Arrive string | Recv nat | Loop | Task nat | Finish nat invocation

definition step :: "action \<Rightarrow> ScriptHandler \<Rightarrow> ScriptHandler option" where
  "step a s =
     (case a of
        Arrive x \<Rightarrow>
          if x = [] then None
          else Some (s\<lparr>reqs := reqs s @ [\<lparr>script = x, phase = Waiting, slot = [], runs = 0\<rparr>]\<rparr>)
      | Recv i \<Rightarrow>
          if curReq s = None \<and> i < length (reqs s) \<and> phase (reqs s ! i) = Waiting
          then Some (setPhase i A_lock1 (s\<lparr>curReq := Some i\<rparr>)) else None
      | Loop \<Rightarrow> (case curReq s of None \<Rightarrow> None | Some i \<Rightarrow> loopStep i s)
      | Task i \<Rightarrow> if i < length (reqs s) then taskStep i s else None
      | Finish i call \<Rightarrow> if i < length (reqs s) then finishStep i call s else None)"

fun exec :: "action list \<Rightarrow> ScriptHandler \<Rightarrow> ScriptHandler option" where
  "exec [] s = Some s"
| "exec (a # as) s = (case step a s of None \<Rightarrow> None | Some s' \<Rightarrow> exec as s')"

definition reachable :: "int \<Rightarrow> ScriptHandler \<Rightarrow> bool" where
  "reachable workers s \<longleftrightarrow> (\<exists>as. exec as (NewScriptHandler workers) = Some s)"

text \<open>The phases in which \<open>Start\<close> holds the request, the mutex is held for it, and it
  is counted in \<open>numChildren\<close>; and the number of steps that a request has yet to take at
  most.\<close>

fun inStart :: "phase \<Rightarrow> bool" where
  "inStart A_lock1 = True" | "inStart A_read = True" | "inStart (A_unlock1 c) = True"
| "inStart (A_check c) = True" | "inStart A_lock2 = True" | "inStart A_inc = True"
| "inStart A_unlock2 = True" | "inStart A_spawn = True" | "inStart _ = False"

fun holdsLock :: "phase \<Rightarrow> bool" where
  "holdsLock A_read = True" | "holdsLock (A_unlock1 c) = True" | "holdsLock A_inc = True"
| "holdsLock A_unlock2 = True" | "holdsLock (T_dec res) = True"
| "holdsLock (T_unlock res) = True" | "holdsLock _ = False"

fun counted :: "phase \<Rightarrow> bool" where
  "counted A_unlock2 = True" | "counted A_spawn = True" | "counted T_begin = True"
| "counted T_run = True" | "counted (T_lock res) = True" | "counted (T_dec res) = True"
| "counted _ = False"

fun stepsLeft :: "phase \<Rightarrow> nat" where
  "stepsLeft Waiting = 15" | "stepsLeft A_lock1 = 14" | "stepsLeft A_read = 13"
| "stepsLeft (A_unlock1 c) = 12" | "stepsLeft (A_check c) = 11" | "stepsLeft A_lock2 = 10"
| "stepsLeft A_inc = 9" | "stepsLeft A_unlock2 = 8" | "stepsLeft A_spawn = 7"
| "stepsLeft T_begin = 6" | "stepsLeft T_run = 5" | "stepsLeft (T_lock res) = 4"
| "stepsLeft (T_dec res) = 3" | "stepsLeft (T_unlock res) = 2" | "stepsLeft (T_send res) = 1"
| "stepsLeft Delivered = 0"

definition inflight :: "string \<Rightarrow> request \<Rightarrow> int" where
  "inflight x r = (if script r = x \<and> counted (phase r) then 1 else 0)"

text \<open>
  A result that rejects a request for the script \<open>x\<close> under the maximum \<open>w\<close>, and a
  result of an execution.
\<close>

definition rejection :: "int \<Rightarrow> string \<Rightarrow> runresult \<Rightarrow> bool" where
  "rejection w x res \<longleftrightarrow> (\<exists>c. w \<le> c \<and> res = ([], Some (ErrTooManyRunning x c)))"

definition executionResult :: "runresult \<Rightarrow> bool" where
  "executionResult res \<longleftrightarrow> (\<exists>call. runCommand call = Some res)"

text \<open>
  The request on whose behalf an action is taken, if any, and whether some action can
  be taken for a request in a state.
\<close>

fun actsFor :: "action \<Rightarrow> ScriptHandler \<Rightarrow> nat option" where
  "actsFor (Arrive x) s = None"
| "actsFor (Recv i) s = Some i"
| "actsFor Loop s = curReq s"
| "actsFor (Task i) s = Some i"
| "actsFor (Finish i call) s = Some i"

definition canStep :: "nat \<Rightarrow> ScriptHandler \<Rightarrow> bool" where
  "canStep i s \<longleftrightarrow> (\<exists>a s'. actsFor a s = Some i \<and> step a s = Some s')"

text \<open>
  Invariants. Control: \<open>Start\<close> holds exactly the request it has received, and the mutex
  is held exactly for the request whose code is between \<open>Lock\<close> and \<open>Unlock\<close>. Count:
  \<open>numChildren\<close> of a script is the number of its requests between the increment and
  the decrement. Bound: the count read by \<open>Start\<close> is an upper bound of the entry until
  \<open>Start\<close> increments it. Slot: what each request has on its channel and how many
  times \<open>runCommand\<close> was called for it, by phase.
\<close>

definition ctlInv :: "ScriptHandler \<Rightarrow> bool" where
  "ctlInv s \<longleftrightarrow>
     (\<forall>i. curReq s = Some i \<longrightarrow> i < length (reqs s))
     \<and> (\<forall>i. mtx s = Some i \<longrightarrow> i < length (reqs s))
     \<and> (\<forall>i < length (reqs s). inStart (phase (reqs s ! i)) \<longleftrightarrow> curReq s = Some i)
     \<and> (\<forall>i < length (reqs s). holdsLock (phase (reqs s ! i)) \<longleftrightarrow> mtx s = Some i)"

definition countInv :: "ScriptHandler \<Rightarrow> bool" where
  "countInv s \<longleftrightarrow> (\<forall>x. numChildren s x = sum_list (map (inflight x) (reqs s)))"

definition boundInv :: "ScriptHandler \<Rightarrow> bool" where
  "boundInv s \<longleftrightarrow>
     (\<forall>x. numChildren s x \<le> max 0 (scriptWorkers s))
     \<and> (\<forall>i < length (reqs s). \<forall>c. phase (reqs s ! i) = A_unlock1 c \<or> phase (reqs s ! i) = A_check c
            \<longrightarrow> numChildren s (script (reqs s ! i)) \<le> c)
     \<and> (\<forall>i < length (reqs s). phase (reqs s ! i) = A_lock2 \<or> phase (reqs s ! i) = A_inc
            \<longrightarrow> numChildren s (script (reqs s ! i)) < scriptWorkers s)"

definition reqOk :: "int \<Rightarrow> request \<Rightarrow> bool" where
  "reqOk w r =
     (case phase r of
        Delivered \<Rightarrow>
          (\<exists>res. slot r = [res]
             \<and> (rejection w (script r) res \<and> runs r = 0 \<or> executionResult res \<and> runs r = 1))
      | T_run \<Rightarrow> slot r = [] \<and> runs r = 1
      | T_lock res \<Rightarrow> slot r = [] \<and> runs r = 1 \<and> executionResult res
      | T_dec res \<Rightarrow> slot r = [] \<and> runs r = 1 \<and> executionResult res
      | T_unlock res \<Rightarrow> slot r = [] \<and> runs r = 1 \<and> executionResult res
      | T_send res \<Rightarrow> slot r = [] \<and> runs r = 1 \<and> executionResult res
      | _ \<Rightarrow> slot r = [] \<and> runs r = 0)"

definition slotInv :: "ScriptHandler \<Rightarrow> bool" where
  "slotInv s \<longleftrightarrow> (\<forall>i < length (reqs s). reqOk (scriptWorkers s) (reqs s ! i))"

section \<open>Properties of name sanitization\<close>

lemma mapPromName_map:
  "0 \<le> i \<Longrightarrow> mapPromName i s = map (\<lambda>r. if promNameKeeps r then r else CHR ''_'') s"
proof (induction s arbitrary: i)
  case Nil
  show ?case by simp
next
  case (Cons r rs)
  have step: "mapPromName (i + 1) rs = map (\<lambda>r. if promNameKeeps r then r else CHR ''_'') rs"
    using Cons.prems by (intro Cons.IH) simp
  show ?case
    using Cons.prems step by (simp add: promNameRune_def promNameKeeps_def Let_def)
qed

lemma makeValidPromName_map:
  "makeValidPromName s = map (\<lambda>r. if promNameKeeps r then r else CHR ''_'') s"
  by (simp add: makeValidPromName_def mapPromName_map)

lemma makeValidPromName_length: "length (makeValidPromName s) = length s"
  by (simp add: makeValidPromName_map)

text \<open>
  Claim C2. Name sanitization replaces every character outside [A-Za-z_] by an
  underscore, digits being permitted from the second character onward only, so that a
  sanitized name never starts with a digit. The code increments its position counter
  before testing it, so the test \<open>i > 0\<close> holds at the first rune too: a leading digit
  is kept. The theorem evaluates the code on the name \<open>1abc\<close>, which comes back
  unchanged.
\<close>

theorem makeValidPromName_keeps_leading_digit:
  "makeValidPromName ''1abc'' = ''1abc''"
  by (simp add: makeValidPromName_map promNameKeeps_def)

section \<open>Properties of the translation\<close>

subsection \<open>Blank lines and fields\<close>

lemma fieldsFrom_Nil_iff: "fieldsFrom cur s = [] \<longleftrightarrow> cur = [] \<and> (\<forall>r \<in> set s. isSpace r)"
  by (induction cur s rule: fieldsFrom.induct) auto

lemma Fields_Nil_iff: "Fields s = [] \<longleftrightarrow> (\<forall>r \<in> set s. isSpace r)"
  by (simp add: Fields_def fieldsFrom_Nil_iff)

lemma dropWhile_Nil_iff: "dropWhile P xs = [] \<longleftrightarrow> (\<forall>x \<in> set xs. P x)"
  by (rule dropWhile_eq_Nil_conv)

lemma TrimSpace_Nil_iff: "TrimSpace s = [] \<longleftrightarrow> (\<forall>r \<in> set s. isSpace r)"
proof
  assume "TrimSpace s = []"
  then have "dropWhile isSpace (rev (dropWhile isSpace s)) = []"
    by (simp add: TrimSpace_def)
  then have a: "\<forall>r \<in> set (dropWhile isSpace s). isSpace r"
    by (metis dropWhile_eq_Nil_conv set_rev)
  show "\<forall>r \<in> set s. isSpace r"
  proof (rule ccontr)
    assume "\<not> (\<forall>r \<in> set s. isSpace r)"
    then have ne: "dropWhile isSpace s \<noteq> []"
      by (metis dropWhile_eq_Nil_conv)
    then have "\<not> isSpace (hd (dropWhile isSpace s))" by (rule hd_dropWhile)
    moreover have "hd (dropWhile isSpace s) \<in> set (dropWhile isSpace s)"
      using ne by simp
    ultimately show False using a by blast
  qed
next
  assume "\<forall>r \<in> set s. isSpace r"
  then have "dropWhile isSpace s = []" by (metis dropWhile_eq_Nil_conv)
  then show "TrimSpace s = []" by (simp add: TrimSpace_def del: dropWhile_eq_Nil_conv)
qed

lemma blank_iff_no_fields: "blank l \<longleftrightarrow> Fields l = []"
  by (simp add: blank_def TrimSpace_Nil_iff Fields_Nil_iff)

lemma dpointsToMetrics_eq: "dpointsToMetrics L dps = (map (dpointMetric L) dps, None)"
  by (simp add: dpointsToMetrics_def)

lemma scanLoop_atomic: "scanLoop L raws dps = (ms, Some e) \<Longrightarrow> ms = []"
  by (induction raws arbitrary: dps)
     (auto simp: dpointsToMetrics_def Let_def split: if_splits sum.splits)

lemma scanLoop_all_good:
  assumes "\<forall>raw \<in> set raws. byteLen raw < MaxScanTokenSize"
    and "\<forall>raw \<in> set raws. \<not> blank (dropCR raw) \<longrightarrow> \<not> isl (parseTcollectorValue L (dropCR raw))"
  shows "\<exists>ms. scanLoop L raws dps = (map (dpointMetric L) dps @ ms, None)
           \<and> list_all2 (\<lambda>l m. \<exists>dp. parseTcollectorValue L l = Inr dp \<and> m = dpointMetric L dp)
                (filter (\<lambda>l. \<not> blank l) (map dropCR raws)) ms"
  using assms
proof (induction raws arbitrary: dps)
  case Nil
  show ?case by (simp add: dpointsToMetrics_def)
next
  case (Cons raw raws)
  have fit: "\<not> MaxScanTokenSize \<le> byteLen raw" using Cons.prems(1) by simp
  have rest1: "\<forall>raw \<in> set raws. byteLen raw < MaxScanTokenSize" using Cons.prems(1) by simp
  have rest2: "\<forall>raw \<in> set raws. \<not> blank (dropCR raw) \<longrightarrow> \<not> isl (parseTcollectorValue L (dropCR raw))"
    using Cons.prems(2) by simp
  show ?case
  proof (cases "blank (dropCR raw)")
    case True
    then show ?thesis using Cons.IH [OF rest1 rest2, of dps] fit
      by (simp add: blank_def)
  next
    case False
    then have "\<not> isl (parseTcollectorValue L (dropCR raw))" using Cons.prems(2) by simp
    then obtain dp where dp: "parseTcollectorValue L (dropCR raw) = Inr dp"
      by (cases "parseTcollectorValue L (dropCR raw)") auto
    obtain ms where ms: "scanLoop L raws (dps @ [dp]) = (map (dpointMetric L) (dps @ [dp]) @ ms, None)"
      "list_all2 (\<lambda>l m. \<exists>dp. parseTcollectorValue L l = Inr dp \<and> m = dpointMetric L dp)
                (filter (\<lambda>l. \<not> blank l) (map dropCR raws)) ms"
      using Cons.IH [OF rest1 rest2, of "dps @ [dp]"] by blast
    show ?thesis
      using False fit dp ms
      by (intro exI [of _ "dpointMetric L dp # ms"]) (simp add: blank_def)
  qed
qed

lemma scanLoop_first_bad:
  assumes "\<forall>raw \<in> set pre. byteLen raw < MaxScanTokenSize
             \<and> (blank (dropCR raw) \<or> \<not> isl (parseTcollectorValue L (dropCR raw)))"
    and "byteLen raw < MaxScanTokenSize" and "\<not> blank (dropCR raw)"
    and "parseTcollectorValue L (dropCR raw) = Inl e"
  shows "scanLoop L (pre @ raw # post) dps = ([], Some e)"
  using assms
proof (induction pre arbitrary: dps)
  case Nil
  then show ?case by (simp add: blank_def)
next
  case (Cons p pre)
  have IH: "\<And>dps. scanLoop L (pre @ raw # post) dps = ([], Some e)"
    using Cons by simp
  have p: "\<not> MaxScanTokenSize \<le> byteLen p"
    "blank (dropCR p) \<or> \<not> isl (parseTcollectorValue L (dropCR p))"
    using Cons.prems(1) by auto
  show ?case
  proof (cases "blank (dropCR p)")
    case True
    then show ?thesis using p IH by (simp add: blank_def)
  next
    case False
    then obtain dp where "parseTcollectorValue L (dropCR p) = Inr dp"
      using p(2) by (cases "parseTcollectorValue L (dropCR p)") auto
    then show ?thesis using False p IH by (simp add: blank_def)
  qed
qed

lemma parseTagTokens_error:
  "parseTagTokens L m toks acc = Inl e \<Longrightarrow> \<exists>tag err. e = BadTag m tag err \<and> tag \<in> set toks"
proof (induction toks arbitrary: acc)
  case Nil
  then show ?case by simp
next
  case (Cons a toks)
  show ?case
  proof (cases "ParseTags L a")
    case (Inl err)
    then show ?thesis using Cons.prems by auto
  next
    case (Inr ts)
    then have "parseTagTokens L m toks (Merge L acc ts) = Inl e" using Cons.prems by simp
    then show ?thesis using Cons.IH by fastforce
  qed
qed

lemma parse_error_describes:
  assumes "parseTcollectorValue L l = Inl e"
  shows "describes e l"
proof (cases "length (Fields l) < 3")
  case True
  then show ?thesis using assms by (auto simp: parseTcollectorValue_def)
next
  case False
  then have len: "3 \<le> length (Fields l)" by simp
  show ?thesis
    using assms False len
    by (auto simp: parseTcollectorValue_def Let_def
             split: option.splits sum.splits if_splits dest!: parseTagTokens_error)
qed

subsection \<open>Atomicity of the translation\<close>

lemma inputLines_first_bad:
  assumes "\<exists>l \<in> set ls. \<not> blank l \<and> isl (parseTcollectorValue L l)"
  shows "\<exists>pre l post. ls = pre @ l # post
           \<and> (\<forall>p \<in> set pre. blank p \<or> \<not> isl (parseTcollectorValue L p))
           \<and> \<not> blank l \<and> isl (parseTcollectorValue L l)"
proof -
  obtain pre l post where "ls = pre @ l # post"
    "\<not> blank l \<and> isl (parseTcollectorValue L l)"
    "\<forall>p \<in> set pre. \<not> (\<not> blank p \<and> isl (parseTcollectorValue L p))"
    using split_list_first_prop [OF assms] by blast
  then show ?thesis by blast
qed

lemma translate_error_no_metrics:
  "translateOpenTsdb L input = (ms, Some e) \<Longrightarrow> ms = []"
  unfolding translateOpenTsdb_def by (rule scanLoop_atomic)

lemma translate_first_bad:
  assumes fits: "fitsScanner input"
    and bad: "\<exists>l \<in> set (inputLines input). \<not> blank l \<and> isl (parseTcollectorValue L l)"
  shows "\<exists>pre l post e. inputLines input = pre @ l # post
              \<and> (\<forall>p \<in> set pre. blank p \<or> \<not> isl (parseTcollectorValue L p))
              \<and> \<not> blank l \<and> parseTcollectorValue L l = Inl e \<and> describes e l
              \<and> translateOpenTsdb L input = ([], Some e)"
proof -
  let ?raws = "splitLines [] input"
  have "\<exists>raw \<in> set ?raws. \<not> blank (dropCR raw) \<and> isl (parseTcollectorValue L (dropCR raw))"
    using bad by (auto simp: inputLines_def)
  then obtain rpre raw rpost where dec: "?raws = rpre @ raw # rpost"
    and raw: "\<not> blank (dropCR raw) \<and> isl (parseTcollectorValue L (dropCR raw))"
    and pre: "\<forall>p \<in> set rpre. \<not> (\<not> blank (dropCR p) \<and> isl (parseTcollectorValue L (dropCR p)))"
    using split_list_first_prop [of ?raws "\<lambda>raw. \<not> blank (dropCR raw) \<and> isl (parseTcollectorValue L (dropCR raw))"]
    by blast
  obtain e where e: "parseTcollectorValue L (dropCR raw) = Inl e"
    using raw by (cases "parseTcollectorValue L (dropCR raw)") auto
  have fit_all: "\<forall>r \<in> set ?raws. byteLen r < MaxScanTokenSize"
    using fits by (simp add: fitsScanner_def)
  have "scanLoop L (rpre @ raw # rpost) [] = ([], Some e)"
  proof (rule scanLoop_first_bad)
    show "\<forall>r \<in> set rpre. byteLen r < MaxScanTokenSize
             \<and> (blank (dropCR r) \<or> \<not> isl (parseTcollectorValue L (dropCR r)))"
      using fit_all pre dec by auto
    show "byteLen raw < MaxScanTokenSize" using fit_all dec by auto
    show "\<not> blank (dropCR raw)" using raw by simp
    show "parseTcollectorValue L (dropCR raw) = Inl e" by (rule e)
  qed
  then have res: "translateOpenTsdb L input = ([], Some e)"
    by (simp add: translateOpenTsdb_def dec)
  have "inputLines input = map dropCR rpre @ dropCR raw # map dropCR rpost"
    by (simp add: inputLines_def dec)
  moreover have "\<forall>p \<in> set (map dropCR rpre). blank p \<or> \<not> isl (parseTcollectorValue L p)"
    using pre by auto
  moreover have "describes e (dropCR raw)" using e by (rule parse_error_describes)
  ultimately show ?thesis using raw e res by blast
qed

lemma dpointMetric_gauge: "valueType (dpointMetric L dp) = GaugeValue"
  by (simp add: dpointMetric_def)

lemma translate_all_good:
  assumes fits: "fitsScanner input"
    and good: "\<forall>l \<in> set (inputLines input). \<not> blank l \<longrightarrow> \<not> isl (parseTcollectorValue L l)"
  shows "\<exists>ms. translateOpenTsdb L input = (ms, None)
           \<and> list_all2 (\<lambda>l m. \<exists>dp. parseTcollectorValue L l = Inr dp \<and> m = dpointMetric L dp)
                (filter (\<lambda>l. \<not> blank l) (inputLines input)) ms
           \<and> length ms = length (filter (\<lambda>l. \<not> blank l) (inputLines input))
           \<and> (\<forall>m \<in> set ms. valueType m = GaugeValue)"
proof -
  let ?raws = "splitLines [] input"
  have a: "\<forall>raw \<in> set ?raws. byteLen raw < MaxScanTokenSize"
    using fits by (simp add: fitsScanner_def)
  have b: "\<forall>raw \<in> set ?raws. \<not> blank (dropCR raw) \<longrightarrow> \<not> isl (parseTcollectorValue L (dropCR raw))"
    using good by (simp add: inputLines_def)
  obtain ms where ms: "scanLoop L ?raws [] = (map (dpointMetric L) [] @ ms, None)"
    "list_all2 (\<lambda>l m. \<exists>dp. parseTcollectorValue L l = Inr dp \<and> m = dpointMetric L dp)
                (filter (\<lambda>l. \<not> blank l) (map dropCR ?raws)) ms"
    using scanLoop_all_good [OF a b, of "[]"] by blast
  have len: "length ms = length (filter (\<lambda>l. \<not> blank l) (inputLines input))"
    using list_all2_lengthD [OF ms(2)] by (simp add: inputLines_def)
  have gauge: "\<forall>m \<in> set ms. valueType m = GaugeValue"
  proof
    fix m assume "m \<in> set ms"
    then obtain i where i: "i < length ms" "ms ! i = m" by (auto simp: in_set_conv_nth)
    then obtain dp where "m = dpointMetric L dp"
      using ms(2) by (auto simp: list_all2_conv_all_nth)
    then show "valueType m = GaugeValue" by (simp add: dpointMetric_gauge)
  qed
  show ?thesis using ms len gauge by (auto simp: translateOpenTsdb_def inputLines_def)
qed

lemma parseTagTokens_isl:
  "isl (parseTagTokens L m toks acc) \<longleftrightarrow> list_ex (\<lambda>tag. isl (ParseTags L tag)) toks"
proof (induction toks arbitrary: acc)
  case Nil
  show ?case by simp
next
  case (Cons tok toks)
  show ?case
  proof (cases "ParseTags L tok")
    case (Inl err)
    then show ?thesis by simp
  next
    case (Inr ts)
    then show ?thesis using Cons.IH [of "Merge L acc ts"] by simp
  qed
qed

lemma parse_fails_iff: "isl (parseTcollectorValue L l) \<longleftrightarrow> lineFails L l"
proof (cases "length (Fields l) < 3")
  case True
  then show ?thesis by (simp add: parseTcollectorValue_def lineFails_def)
next
  case long: False
  show ?thesis
  proof (cases "ParseInt L (Fields l ! 1)")
    case None
    then show ?thesis using long by (simp add: parseTcollectorValue_def lineFails_def)
  next
    case ts: (Some t)
    show ?thesis
    proof (cases "ParseFloat L (Fields l ! 2)")
      case None
      then show ?thesis using long ts by (simp add: parseTcollectorValue_def lineFails_def)
    next
      case v: (Some x)
      show ?thesis
      proof (cases "ValidTSDBString L (Fields l ! 0)")
        case False
        then show ?thesis using long ts v by (simp add: parseTcollectorValue_def lineFails_def)
      next
        case True
        have "isl (parseTcollectorValue L l)
            \<longleftrightarrow> isl (parseTagTokens L (Fields l ! 0) (drop 3 (Fields l)) [])"
          using long ts v True
          by (simp add: parseTcollectorValue_def Let_def split: sum.splits)
        then show ?thesis using long ts v True
          by (simp add: lineFails_def parseTagTokens_isl)
      qed
    qed
  qed
qed

lemma parseTagTokens_blame:
  "parseTagTokens L m toks acc = Inl e
     \<Longrightarrow> \<exists>tag err. e = BadTag m tag err \<and> tag \<in> set toks \<and> ParseTags L tag = Inl err"
proof (induction toks arbitrary: acc)
  case Nil
  then show ?case by simp
next
  case (Cons a toks)
  show ?case
  proof (cases "ParseTags L a")
    case (Inl err)
    then show ?thesis using Cons.prems by auto
  next
    case (Inr ts)
    then have "parseTagTokens L m toks (Merge L acc ts) = Inl e" using Cons.prems by simp
    then show ?thesis using Cons.IH by fastforce
  qed
qed

lemma parse_error_blames:
  assumes "parseTcollectorValue L l = Inl e"
  shows "blames L e l"
proof (cases "length (Fields l) < 3")
  case True
  then show ?thesis using assms by (auto simp: parseTcollectorValue_def)
next
  case False
  then have len: "3 \<le> length (Fields l)" by simp
  show ?thesis
    using assms False len
    by (auto simp: parseTcollectorValue_def Let_def
             split: option.splits sum.splits if_splits dest!: parseTagTokens_blame)
qed

text \<open>
  Claim C5, as amended. Whenever the translation returns an error it returns no metrics.
  For an input none of whose lines reaches the scanner's buffer size: if some non-blank
  line fails to parse, because it has fewer than three fields, or a timestamp that does
  not parse as an integer, or a value that does not parse as a floating-point number, or
  an invalid metric name, or a malformed tag token, then the translation returns no
  metrics and the error of the first such line, and that error names a defect of the
  line and quotes the line or the field at fault; if no non-blank line fails to parse,
  the translation returns no error and one gauge metric per non-blank line.
\<close>

theorem translateOpenTsdb_atomic:
  "(\<forall>ms e. translateOpenTsdb L input = (ms, Some e) \<longrightarrow> ms = [])
   \<and> (fitsScanner input \<longrightarrow>
       ((\<exists>l \<in> set (inputLines input). \<not> blank l \<and> lineFails L l) \<longrightarrow>
          (\<exists>pre l post e. inputLines input = pre @ l # post
              \<and> (\<forall>p \<in> set pre. blank p \<or> \<not> lineFails L p)
              \<and> \<not> blank l \<and> lineFails L l
              \<and> parseTcollectorValue L l = Inl e \<and> blames L e l \<and> describes e l
              \<and> translateOpenTsdb L input = ([], Some e)))
     \<and> ((\<forall>l \<in> set (inputLines input). \<not> blank l \<longrightarrow> \<not> lineFails L l) \<longrightarrow>
          (\<exists>ms. translateOpenTsdb L input = (ms, None)
             \<and> length ms = length (filter (\<lambda>l. \<not> blank l) (inputLines input))
             \<and> (\<forall>m \<in> set ms. valueType m = GaugeValue))))"
proof -
  have a: "\<forall>ms e. translateOpenTsdb L input = (ms, Some e) \<longrightarrow> ms = []"
    using translate_error_no_metrics [of L input] by blast
  have b: "fitsScanner input \<Longrightarrow> \<exists>l \<in> set (inputLines input). \<not> blank l \<and> lineFails L l
     \<Longrightarrow> \<exists>pre l post e. inputLines input = pre @ l # post
              \<and> (\<forall>p \<in> set pre. blank p \<or> \<not> lineFails L p)
              \<and> \<not> blank l \<and> lineFails L l
              \<and> parseTcollectorValue L l = Inl e \<and> blames L e l \<and> describes e l
              \<and> translateOpenTsdb L input = ([], Some e)"
  proof -
    assume f: "fitsScanner input" and bad: "\<exists>l \<in> set (inputLines input). \<not> blank l \<and> lineFails L l"
    then have "\<exists>l \<in> set (inputLines input). \<not> blank l \<and> isl (parseTcollectorValue L l)"
      by (simp add: parse_fails_iff)
    then obtain pre l post e where r: "inputLines input = pre @ l # post"
      "\<forall>p \<in> set pre. blank p \<or> \<not> isl (parseTcollectorValue L p)"
      "\<not> blank l" "parseTcollectorValue L l = Inl e" "describes e l"
      "translateOpenTsdb L input = ([], Some e)"
      using translate_first_bad [OF f] by blast
    have "lineFails L l" using r(4) parse_fails_iff [of L l] by simp
    moreover have "blames L e l" using r(4) by (rule parse_error_blames)
    moreover have "\<forall>p \<in> set pre. blank p \<or> \<not> lineFails L p"
      using r(2) by (simp add: parse_fails_iff)
    ultimately show ?thesis using r by blast
  qed
  have c: "fitsScanner input \<Longrightarrow> \<forall>l \<in> set (inputLines input). \<not> blank l \<longrightarrow> \<not> lineFails L l
     \<Longrightarrow> \<exists>ms. translateOpenTsdb L input = (ms, None)
             \<and> length ms = length (filter (\<lambda>l. \<not> blank l) (inputLines input))
             \<and> (\<forall>m \<in> set ms. valueType m = GaugeValue)"
  proof -
    assume f: "fitsScanner input"
      and g: "\<forall>l \<in> set (inputLines input). \<not> blank l \<longrightarrow> \<not> lineFails L l"
    then have "\<forall>l \<in> set (inputLines input). \<not> blank l \<longrightarrow> \<not> isl (parseTcollectorValue L l)"
      by (simp add: parse_fails_iff)
    then show ?thesis using translate_all_good [OF f] by blast
  qed
  show ?thesis using a b c by blast
qed



subsection \<open>Evaluation of the examples\<close>

lemma splitLines_no_newline:
  "CHR 0x0A \<notin> set s \<Longrightarrow> splitLines cur s = (if cur @ s = [] then [] else [cur @ s])"
  by (induction s arbitrary: cur) auto

lemma fieldsFrom_spaces: "fieldsFrom cur (replicate n (CHR '' '')) = (if cur = [] then [] else [cur])"
  by (induction n arbitrary: cur) (auto simp: isSpace_def)

lemma byteLen_append: "byteLen (a @ b) = byteLen a + byteLen b"
  by (simp add: byteLen_def)

lemma byteLen_spaces: "byteLen (replicate n (CHR '' '')) = n"
  by (induction n) (auto simp: byteLen_def)

lemma MaxScanTokenSize_pos: "0 < MaxScanTokenSize"
  by (simp add: MaxScanTokenSize_def)

lemma overlongLine_lines: "splitLines [] overlongLine = [overlongLine]"
  by (simp add: overlongLine_def splitLines_no_newline)

lemma overlongLine_dropCR: "dropCR overlongLine = overlongLine"
  using MaxScanTokenSize_pos by (simp add: overlongLine_def dropCR_def)

lemma overlongLine_Fields: "Fields overlongLine = [''a'', ''1'', ''2'']"
  by (simp add: overlongLine_def Fields_def fieldsFrom_spaces isSpace_def)

lemma overlongLine_parse:
  "parseTcollectorValue refLib overlongLine
     = Inr \<lparr>Metric = ''a'', Timestamp = 1, Value = VFloat64 2, Tags = []\<rparr>"
  by (simp add: parseTcollectorValue_def overlongLine_Fields refLib_def refParseInt_def
        refParseFloat_def digitVal_def refValidTSDBString_def promNameKeeps_def)

text \<open>
  Claim C5 as stated fails: the text \<open>overlongLine\<close> has one line, which is not blank
  and parses, and yet its translation is no metric and the scanner's error, because the
  line is longer than the scanner's buffer.
\<close>

theorem translateOpenTsdb_overlong_line:
  "inputLines overlongLine = [overlongLine] \<and> \<not> blank overlongLine
   \<and> parseTcollectorValue refLib overlongLine
       = Inr \<lparr>Metric = ''a'', Timestamp = 1, Value = VFloat64 2, Tags = []\<rparr>
   \<and> translateOpenTsdb refLib overlongLine = ([], Some ErrTooLong)"
proof -
  have "byteLen ''a 1 2'' = 5" by (simp add: byteLen_def)
  then have "byteLen overlongLine = 5 + MaxScanTokenSize"
    by (simp only: overlongLine_def byteLen_append byteLen_spaces)
  then have "translateOpenTsdb refLib overlongLine = ([], Some ErrTooLong)"
    by (simp add: translateOpenTsdb_def overlongLine_lines)
  moreover have "\<not> blank overlongLine"
    by (simp add: blank_iff_no_fields overlongLine_Fields)
  ultimately show ?thesis
    by (simp add: inputLines_def overlongLine_lines overlongLine_dropCR overlongLine_parse)
qed


lemmas text_eval = inputLines_def dropCR_def fitsScanner_def byteLen_def MaxScanTokenSize_def
  Fields_def isSpace_def

lemmas lib_eval = parseTcollectorValue_def refLib_def refParseInt_def refParseFloat_def
  digitVal_def refValidTSDBString_def promNameKeeps_def refParseTags_def Merge_def

lemma ex_lines:
  "inputLines ''a.a 1000 9 l1=v1\<newline>a.b 1001 99 l2=v2 l3=v3''
     = [''a.a 1000 9 l1=v1'', ''a.b 1001 99 l2=v2 l3=v3'']"
  by (simp add: text_eval)

lemma ex_fits: "fitsScanner ''a.a 1000 9 l1=v1\<newline>a.b 1001 99 l2=v2 l3=v3''"
  by (simp add: text_eval)

lemma ex_parse1:
  "parseTcollectorValue refLib ''a.a 1000 9 l1=v1''
     = Inr \<lparr>Metric = ''a.a'', Timestamp = 1000, Value = VFloat64 9, Tags = [(''l1'', ''v1'')]\<rparr>"
  by (simp add: text_eval lib_eval)

lemma ex_parse2:
  "parseTcollectorValue refLib ''a.b 1001 99 l2=v2 l3=v3''
     = Inr \<lparr>Metric = ''a.b'', Timestamp = 1001, Value = VFloat64 99,
            Tags = [(''l2'', ''v2''), (''l3'', ''v3'')]\<rparr>"
  by (simp add: text_eval lib_eval)

lemma bad_lines:
  "inputLines ''a.a 1000 9 l1=v1\<newline>a.b 1001'' = [''a.a 1000 9 l1=v1'', ''a.b 1001'']"
  by (simp add: text_eval)

lemma bad_fits: "fitsScanner ''a.a 1000 9 l1=v1\<newline>a.b 1001''"
  by (simp add: text_eval)

lemma bad_parse2: "parseTcollectorValue refLib ''a.b 1001'' = Inl (BadLine ''a.b 1001'')"
  by (simp add: text_eval lib_eval)

lemma nonblank1: "\<not> blank ''a.b 1001''"
  by (simp add: blank_iff_no_fields text_eval)

lemma single_line_failure:
  assumes lines: "inputLines input = [l0]" and fits: "fitsScanner input"
    and nb: "\<not> blank l0" and bad: "lineFails L l0"
    and err: "parseTcollectorValue L l0 = Inl e0"
    and atom: "fitsScanner input \<longrightarrow>
       ((\<exists>l \<in> set (inputLines input). \<not> blank l \<and> lineFails L l) \<longrightarrow>
          (\<exists>pre l post e. inputLines input = pre @ l # post
              \<and> (\<forall>p \<in> set pre. blank p \<or> \<not> lineFails L p)
              \<and> \<not> blank l \<and> lineFails L l
              \<and> parseTcollectorValue L l = Inl e \<and> blames L e l \<and> describes e l
              \<and> translateOpenTsdb L input = ([], Some e)))"
  shows "translateOpenTsdb L input = ([], Some e0)"
proof -
  have "\<exists>l \<in> set (inputLines input). \<not> blank l \<and> lineFails L l"
    using lines nb bad by simp
  then obtain pre l post e where r: "inputLines input = pre @ l # post"
    "parseTcollectorValue L l = Inl e" "translateOpenTsdb L input = ([], Some e)"
    using atom fits by blast
  have "l = l0" using r(1) lines by (simp add: Cons_eq_append_conv)
  then have "e = e0" using r(2) err by simp
  then show ?thesis using r(3) by simp
qed

text \<open>
  Instances of claim C5, one for each way a line fails to parse: a missing value field,
  a timestamp that is no integer, a value that is no number, an invalid metric name and
  a tag token without equals sign; and the text of the repository's test, which
  translates to two metrics.
\<close>

theorem translateOpenTsdb_atomic_witness:
  "translateOpenTsdb refLib ''a.b 1001'' = ([], Some (BadLine ''a.b 1001''))
   \<and> translateOpenTsdb refLib ''a.b 12x 9'' = ([], Some (BadTimestamp ''12x''))
   \<and> translateOpenTsdb refLib ''a.b 1001 nine'' = ([], Some (BadValue ''nine''))
   \<and> translateOpenTsdb refLib ''a!b 1001 9'' = ([], Some (BadMetric ''a!b''))
   \<and> translateOpenTsdb refLib ''a.b 1001 9 l1''
        = ([], Some (BadTag ''a.b'' ''l1'' ''opentsdb: bad tag: l1''))
   \<and> (\<exists>ms. translateOpenTsdb refLib ''a.a 1000 9 l1=v1\<newline>a.b 1001 99 l2=v2 l3=v3''
              = (ms, None) \<and> length ms = 2)"
proof -
  have tags: "ParseTags refLib ''l1'' = Inl ''opentsdb: bad tag: l1''"
    "ParseTags refLib ''l1=v1'' = Inr [(''l1'', ''v1'')]"
    "ParseTags refLib ''l2=v2'' = Inr [(''l2'', ''v2'')]"
    "ParseTags refLib ''l3=v3'' = Inr [(''l3'', ''v3'')]"
    by (simp_all add: lib_eval)
  have c1: "translateOpenTsdb refLib ''a.b 1001'' = ([], Some (BadLine ''a.b 1001''))"
  proof (rule single_line_failure)
    show "inputLines ''a.b 1001'' = [''a.b 1001'']" by (simp add: text_eval)
    show "fitsScanner ''a.b 1001''" by (simp add: text_eval)
    show "\<not> blank ''a.b 1001''" by (simp add: blank_iff_no_fields text_eval)
    show "lineFails refLib ''a.b 1001''" by (simp add: lineFails_def text_eval)
    show "parseTcollectorValue refLib ''a.b 1001'' = Inl (BadLine ''a.b 1001'')"
      by (simp add: text_eval lib_eval)
  qed (use translateOpenTsdb_atomic [of refLib "''a.b 1001''"] in blast)
  have c2: "translateOpenTsdb refLib ''a.b 12x 9'' = ([], Some (BadTimestamp ''12x''))"
  proof (rule single_line_failure)
    show "inputLines ''a.b 12x 9'' = [''a.b 12x 9'']" by (simp add: text_eval)
    show "fitsScanner ''a.b 12x 9''" by (simp add: text_eval)
    show "\<not> blank ''a.b 12x 9''" by (simp add: blank_iff_no_fields text_eval)
    show "lineFails refLib ''a.b 12x 9''" by (simp add: lineFails_def text_eval lib_eval)
    show "parseTcollectorValue refLib ''a.b 12x 9'' = Inl (BadTimestamp ''12x'')"
      by (simp add: text_eval lib_eval)
  qed (use translateOpenTsdb_atomic [of refLib "''a.b 12x 9''"] in blast)
  have c3: "translateOpenTsdb refLib ''a.b 1001 nine'' = ([], Some (BadValue ''nine''))"
  proof (rule single_line_failure)
    show "inputLines ''a.b 1001 nine'' = [''a.b 1001 nine'']" by (simp add: text_eval)
    show "fitsScanner ''a.b 1001 nine''" by (simp add: text_eval)
    show "\<not> blank ''a.b 1001 nine''" by (simp add: blank_iff_no_fields text_eval)
    show "lineFails refLib ''a.b 1001 nine''" by (simp add: lineFails_def text_eval lib_eval)
    show "parseTcollectorValue refLib ''a.b 1001 nine'' = Inl (BadValue ''nine'')"
      by (simp add: text_eval lib_eval)
  qed (use translateOpenTsdb_atomic [of refLib "''a.b 1001 nine''"] in blast)
  have c4: "translateOpenTsdb refLib ''a!b 1001 9'' = ([], Some (BadMetric ''a!b''))"
  proof (rule single_line_failure)
    show "inputLines ''a!b 1001 9'' = [''a!b 1001 9'']" by (simp add: text_eval)
    show "fitsScanner ''a!b 1001 9''" by (simp add: text_eval)
    show "\<not> blank ''a!b 1001 9''" by (simp add: blank_iff_no_fields text_eval)
    show "lineFails refLib ''a!b 1001 9''" by (simp add: lineFails_def text_eval lib_eval)
    show "parseTcollectorValue refLib ''a!b 1001 9'' = Inl (BadMetric ''a!b'')"
      by (simp add: text_eval lib_eval)
  qed (use translateOpenTsdb_atomic [of refLib "''a!b 1001 9''"] in blast)
  have c5: "translateOpenTsdb refLib ''a.b 1001 9 l1''
        = ([], Some (BadTag ''a.b'' ''l1'' ''opentsdb: bad tag: l1''))"
  proof (rule single_line_failure)
    show "inputLines ''a.b 1001 9 l1'' = [''a.b 1001 9 l1'']" by (simp add: text_eval)
    show "fitsScanner ''a.b 1001 9 l1''" by (simp add: text_eval)
    show "\<not> blank ''a.b 1001 9 l1''" by (simp add: blank_iff_no_fields text_eval)
    show "lineFails refLib ''a.b 1001 9 l1''" by (simp add: lineFails_def text_eval tags)
    show "parseTcollectorValue refLib ''a.b 1001 9 l1''
        = Inl (BadTag ''a.b'' ''l1'' ''opentsdb: bad tag: l1'')"
      by (simp add: text_eval lib_eval)
  qed (use translateOpenTsdb_atomic [of refLib "''a.b 1001 9 l1''"] in blast)
  have g: "\<forall>l \<in> set (inputLines ''a.a 1000 9 l1=v1\<newline>a.b 1001 99 l2=v2 l3=v3'').
         \<not> blank l \<longrightarrow> \<not> lineFails refLib l"
    using ex_parse1 ex_parse2
      parse_fails_iff [of refLib "''a.a 1000 9 l1=v1''"]
      parse_fails_iff [of refLib "''a.b 1001 99 l2=v2 l3=v3''"]
    by (simp add: ex_lines)
  have n: "length (filter (\<lambda>l. \<not> blank l)
             (inputLines ''a.a 1000 9 l1=v1\<newline>a.b 1001 99 l2=v2 l3=v3'')) = 2"
    by (simp add: ex_lines blank_iff_no_fields Fields_def isSpace_def)
  have c6: "\<exists>ms. translateOpenTsdb refLib ''a.a 1000 9 l1=v1\<newline>a.b 1001 99 l2=v2 l3=v3''
              = (ms, None) \<and> length ms = 2"
    using g ex_fits n
      translateOpenTsdb_atomic [of refLib "''a.a 1000 9 l1=v1\<newline>a.b 1001 99 l2=v2 l3=v3''"]
    by metis
  show ?thesis using c1 c2 c3 c4 c5 c6 by blast
qed

subsection \<open>Tags and labels\<close>

lemma range_set: "range_visits_all L \<Longrightarrow> set (rangeOrder L ts) = set ts"
  by (metis range_visits_all_def mset_eq_setD)

lemma range_single: "range_visits_all L \<Longrightarrow> rangeOrder L [x] = [x]"
proof -
  assume "range_visits_all L"
  then have "mset (rangeOrder L [x]) = {#x#}" by (simp add: range_visits_all_def)
  then show ?thesis by (simp add: mset_single_iff_right)
qed

lemma range_Nil: "range_visits_all L \<Longrightarrow> rangeOrder L [] = []"
proof -
  assume "range_visits_all L"
  then have "mset (rangeOrder L []) = {#}" by (simp add: range_visits_all_def)
  then show ?thesis by simp
qed

lemma setTag_fresh: "k \<notin> fst ` set t \<Longrightarrow> setTag k v t = t @ [(k, v)]"
  by (induction t) auto

lemma setTag_set: "set (setTag k v t) \<subseteq> insert (k, v) (set t)"
  by (induction t) (auto split: if_splits)

lemma foldl_setTag_fresh:
  "distinct (map fst (t @ xs)) \<Longrightarrow> foldl (\<lambda>t (k, v). setTag k v t) t xs = t @ xs"
proof (induction xs arbitrary: t)
  case Nil
  show ?case by simp
next
  case (Cons x xs)
  obtain k v where x: "x = (k, v)" by (cases x)
  have fresh: "k \<notin> fst ` set t" using Cons.prems x by auto
  have "distinct (map fst ((t @ [(k, v)]) @ xs))" using Cons.prems x by auto
  then have "foldl (\<lambda>t (k, v). setTag k v t) (t @ [(k, v)]) xs = (t @ [(k, v)]) @ xs"
    by (rule Cons.IH)
  then show ?case using fresh x by (simp add: setTag_fresh)
qed

lemma foldl_setTag_set:
  "set (foldl (\<lambda>t (k, v). setTag k v t) t xs) \<subseteq> set t \<union> set xs"
proof (induction xs arbitrary: t)
  case Nil
  show ?case by simp
next
  case (Cons x xs)
  obtain k v where x: "x = (k, v)" by (cases x)
  have "set (foldl (\<lambda>t (k, v). setTag k v t) (setTag k v t) xs) \<subseteq> set (setTag k v t) \<union> set xs"
    by (rule Cons.IH)
  then show ?case using setTag_set [of k v t] x by auto
qed

lemma Merge_set: "range_visits_all L \<Longrightarrow> set (Merge L t ts) \<subseteq> set t \<union> set ts"
  using foldl_setTag_set [of t "rangeOrder L ts"] by (simp add: Merge_def range_set)

lemma Merge_fresh:
  assumes "range_visits_all L" and "distinct (map fst (t @ ts))"
  shows "mset (Merge L t ts) = mset t + mset ts"
proof -
  have m: "mset (rangeOrder L ts) = mset ts" using assms(1) by (simp add: range_visits_all_def)
  then have "mset (map fst (t @ rangeOrder L ts)) = mset (map fst (t @ ts))"
    by (metis mset_append mset_map)
  then have "distinct (map fst (t @ rangeOrder L ts))"
    using assms(2) by (metis mset_eq_imp_distinct_iff)
  then have "Merge L t ts = t @ rangeOrder L ts"
    unfolding Merge_def by (rule foldl_setTag_fresh)
  then show ?thesis using m by simp
qed

lemma parseTagTokens_set:
  "range_visits_all L \<Longrightarrow> parseTagTokens L m toks acc = Inr tags
     \<Longrightarrow> set tags \<subseteq> set acc \<union> set (concat (map (tagsOf L) toks))"
proof (induction toks arbitrary: acc)
  case Nil
  then show ?case by simp
next
  case (Cons tok toks)
  then obtain ts where ts: "ParseTags L tok = Inr ts"
    by (cases "ParseTags L tok") auto
  then have "parseTagTokens L m toks (Merge L acc ts) = Inr tags" using Cons.prems by simp
  then have "set tags \<subseteq> set (Merge L acc ts) \<union> set (concat (map (tagsOf L) toks))"
    using Cons.IH Cons.prems(1) by blast
  then show ?case using Merge_set [OF Cons.prems(1), of acc ts] ts
    by (auto simp: tagsOf_def)
qed

lemma parseTagTokens_fresh:
  "range_visits_all L \<Longrightarrow> parseTagTokens L m toks acc = Inr tags
     \<Longrightarrow> distinct (map fst (acc @ concat (map (tagsOf L) toks)))
     \<Longrightarrow> mset tags = mset acc + mset (concat (map (tagsOf L) toks))"
proof (induction toks arbitrary: acc)
  case Nil
  then show ?case by simp
next
  case (Cons tok toks)
  then obtain ts where ts: "ParseTags L tok = Inr ts"
    by (cases "ParseTags L tok") auto
  have t: "tagsOf L tok = ts" using ts by (simp add: tagsOf_def)
  have run: "parseTagTokens L m toks (Merge L acc ts) = Inr tags" using Cons.prems ts by simp
  have d: "distinct (map fst ((acc @ ts) @ concat (map (tagsOf L) toks)))"
    using Cons.prems(3) t by simp
  then have d1: "distinct (map fst (acc @ ts))" by auto
  have mm: "mset (Merge L acc ts) = mset acc + mset ts"
    using Merge_fresh [OF Cons.prems(1) d1] .
  have "mset (map fst (Merge L acc ts @ concat (map (tagsOf L) toks)))
          = mset (map fst ((acc @ ts) @ concat (map (tagsOf L) toks)))"
    using mm by (metis mset_append mset_map)
  then have "distinct (map fst (Merge L acc ts @ concat (map (tagsOf L) toks)))"
    using d by (metis mset_eq_imp_distinct_iff)
  then have "mset tags = mset (Merge L acc ts) + mset (concat (map (tagsOf L) toks))"
    using Cons.IH [OF Cons.prems(1) run] by blast
  then show ?case using mm t by simp
qed

lemma foldl_labels_Some:
  "foldl setLabel m0 xs k' = Some v'
     \<Longrightarrow> m0 k' = Some v' \<or> (\<exists>k. (k, v') \<in> set xs \<and> makeValidPromName k = k')"
proof (induction xs arbitrary: m0)
  case Nil
  then show ?case by simp
next
  case (Cons x xs)
  obtain k v where x: "x = (k, v)" by (cases x)
  have "foldl setLabel (setLabel m0 (k, v)) xs k' = Some v'"
    using Cons.prems x by simp
  then have "(setLabel m0 (k, v)) k' = Some v' \<or> (\<exists>k. (k, v') \<in> set xs \<and> makeValidPromName k = k')"
    by (rule Cons.IH)
  then show ?case using x by (auto split: if_splits)
qed

lemma foldl_labels_keep:
  "m (makeValidPromName k) = Some v
     \<Longrightarrow> makeValidPromName k \<notin> (makeValidPromName \<circ> fst) ` set xs
     \<Longrightarrow> foldl setLabel m xs (makeValidPromName k) = Some v"
proof (induction xs arbitrary: m)
  case Nil
  then show ?case by simp
next
  case (Cons y ys)
  obtain k2 v2 where y: "y = (k2, v2)" by (cases y)
  have ne: "makeValidPromName k2 \<noteq> makeValidPromName k" using Cons.prems(2) y by auto
  have "(setLabel m (k2, v2)) (makeValidPromName k) = Some v" using ne Cons.prems(1) by simp
  then have "foldl setLabel (setLabel m (k2, v2)) ys (makeValidPromName k) = Some v"
    using Cons.IH Cons.prems(2) by auto
  then show ?case using y by simp
qed

lemma foldl_labels_distinct:
  "distinct (map (makeValidPromName \<circ> fst) xs) \<Longrightarrow> (k, v) \<in> set xs
     \<Longrightarrow> foldl setLabel m0 xs (makeValidPromName k) = Some v"
proof (induction xs arbitrary: m0)
  case Nil
  then show ?case by simp
next
  case (Cons x xs)
  obtain k1 v1 where x: "x = (k1, v1)" by (cases x)
  show ?case
  proof (cases "(k, v) \<in> set xs")
    case True
    then show ?thesis using Cons x by simp
  next
    case False
    then have e: "k1 = k" "v1 = v" using Cons.prems(2) x by auto
    have notin: "makeValidPromName k \<notin> (makeValidPromName \<circ> fst) ` set xs"
      using Cons.prems(1) x e by auto
    have "foldl setLabel (setLabel m0 (k, v)) xs (makeValidPromName k) = Some v"
      using notin by (intro foldl_labels_keep) simp_all
    then show ?thesis using x e by simp
  qed
qed

lemma tagLabels_Some:
  "range_visits_all L \<Longrightarrow> tagLabels L tags k' = Some v'
     \<Longrightarrow> \<exists>k. (k, v') \<in> set tags \<and> makeValidPromName k = k'"
  using foldl_labels_Some [of Map.empty "rangeOrder L tags" k' v']
  by (simp add: tagLabels_def range_set)

lemma tagLabels_distinct:
  assumes "range_visits_all L" and "distinct (map (makeValidPromName \<circ> fst) tags)"
    and "(k, v) \<in> set tags"
  shows "tagLabels L tags (makeValidPromName k) = Some v"
proof -
  have m: "mset (rangeOrder L tags) = mset tags" using assms(1) by (simp add: range_visits_all_def)
  then have "mset (map (makeValidPromName \<circ> fst) (rangeOrder L tags))
           = mset (map (makeValidPromName \<circ> fst) tags)"
    by (metis mset_map)
  then have "distinct (map (makeValidPromName \<circ> fst) (rangeOrder L tags))"
    using assms(2) by (metis mset_eq_imp_distinct_iff)
  moreover have "(k, v) \<in> set (rangeOrder L tags)" using assms(1,3) by (simp add: range_set)
  ultimately show ?thesis unfolding tagLabels_def by (rule foldl_labels_distinct)
qed

lemma parse_Inr_Tags:
  assumes "parseTcollectorValue L line = Inr dp"
  shows "3 \<le> length (Fields line)
       \<and> parseTagTokens L (Fields line ! 0) (drop 3 (Fields line)) [] = Inr (Tags dp)
       \<and> Metric dp = Fields line ! 0
       \<and> ParseInt L (Fields line ! 1) = Some (Timestamp dp)
       \<and> (\<exists>v. ParseFloat L (Fields line ! 2) = Some v \<and> Value dp = VFloat64 v)
       \<and> ValidTSDBString L (Fields line ! 0)"
  using assms
  by (auto simp: parseTcollectorValue_def Let_def split: if_splits option.splits sum.splits)

lemma tagLabels_map_of:
  assumes "range_visits_all L" and "distinct (map (makeValidPromName \<circ> fst) tags)"
  shows "tagLabels L tags = map_of (map (\<lambda>(k, v). (makeValidPromName k, v)) tags)"
proof
  fix k'
  show "tagLabels L tags k' = map_of (map (\<lambda>(k, v). (makeValidPromName k, v)) tags) k'"
  proof (cases "map_of (map (\<lambda>(k, v). (makeValidPromName k, v)) tags) k'")
    case None
    then have notin: "k' \<notin> fst ` set (map (\<lambda>(k, v). (makeValidPromName k, v)) tags)"
      by (simp add: map_of_eq_None_iff)
    have "tagLabels L tags k' = None"
    proof (rule ccontr)
      assume "tagLabels L tags k' \<noteq> None"
      then obtain v' where "tagLabels L tags k' = Some v'" by auto
      then obtain k where "(k, v') \<in> set tags" "makeValidPromName k = k'"
        using tagLabels_Some [OF assms(1)] by blast
      then have "k' \<in> fst ` set (map (\<lambda>(k, v). (makeValidPromName k, v)) tags)"
        by force
      then show False using notin by simp
    qed
    then show ?thesis using None by simp
  next
    case (Some v)
    then have "(k', v) \<in> set (map (\<lambda>(k, v). (makeValidPromName k, v)) tags)"
      by (rule map_of_SomeD)
    then obtain k where "(k, v) \<in> set tags" "makeValidPromName k = k'" by auto
    then have "tagLabels L tags k' = Some v"
      using tagLabels_distinct [OF assms] by blast
    then show ?thesis using Some by simp
  qed
qed

lemma Merge_single_fresh:
  "range_visits_all L \<Longrightarrow> k \<notin> fst ` set t \<Longrightarrow> Merge L t [(k, v)] = t @ [(k, v)]"
  by (simp add: Merge_def range_single setTag_fresh)

subsection \<open>The input of the repository's test\<close>

lemma scanLoop_any_bad:
  "\<exists>raw \<in> set raws. \<not> blank (dropCR raw) \<and> isl (parseTcollectorValue L (dropCR raw))
     \<Longrightarrow> \<exists>e. scanLoop L raws dps = ([], Some e)"
proof (induction raws arbitrary: dps)
  case Nil
  then show ?case by simp
next
  case (Cons raw raws)
  show ?case
  proof (cases "MaxScanTokenSize \<le> byteLen raw")
    case True
    then show ?thesis by simp
  next
    case fit: False
    show ?thesis
    proof (cases "blank (dropCR raw)")
      case True
      then have "\<exists>r \<in> set raws. \<not> blank (dropCR r) \<and> isl (parseTcollectorValue L (dropCR r))"
        using Cons.prems by auto
      then have "\<exists>e. scanLoop L raws dps = ([], Some e)" by (rule Cons.IH)
      then show ?thesis using fit True by (simp add: blank_def)
    next
      case nb: False
      show ?thesis
      proof (cases "parseTcollectorValue L (dropCR raw)")
        case (Inl e)
        then show ?thesis using fit nb by (simp add: blank_def)
      next
        case (Inr dp)
        then have "\<exists>r \<in> set raws. \<not> blank (dropCR r) \<and> isl (parseTcollectorValue L (dropCR r))"
          using Cons.prems by auto
        then have "\<exists>e. scanLoop L raws (dps @ [dp]) = ([], Some e)" by (rule Cons.IH)
        then show ?thesis using fit nb Inr by (simp add: blank_def)
      qed
    qed
  qed
qed

lemma short_line_fails:
  assumes "\<exists>l \<in> set (inputLines input). \<not> blank l \<and> length (Fields l) < 3"
  shows "\<exists>e. translateOpenTsdb L input = ([], Some e)"
proof -
  have "\<And>l. length (Fields l) < 3 \<Longrightarrow> isl (parseTcollectorValue L l)"
    by (simp add: parseTcollectorValue_def)
  then have "\<exists>raw \<in> set (splitLines [] input).
      \<not> blank (dropCR raw) \<and> isl (parseTcollectorValue L (dropCR raw))"
    using assms by (auto simp: inputLines_def)
  then show ?thesis unfolding translateOpenTsdb_def by (rule scanLoop_any_bad)
qed

lemma test_input_translation:
  assumes r: "range_visits_all L"
    and t: "ParseInt L ''1000'' = Some t1" "ParseInt L ''1001'' = Some t2"
    and v: "ParseFloat L ''9'' = Some nine" "ParseFloat L ''99'' = Some ninetynine"
    and m: "ValidTSDBString L ''a.a''" "ValidTSDBString L ''a.b''"
    and g: "ParseTags L ''l1=v1'' = Inr [(''l1'', ''v1'')]"
       "ParseTags L ''l2=v2'' = Inr [(''l2'', ''v2'')]"
       "ParseTags L ''l3=v3'' = Inr [(''l3'', ''v3'')]"
  shows "translateOpenTsdb L ''a.a 1000 9 l1=v1\<newline>a.b 1001 99 l2=v2 l3=v3'' =
     ([\<lparr>fqName = ''a_a'', helpText = ''help'', variableLabels = [],
        constLabels = [''l1'' \<mapsto> ''v1''], valueType = GaugeValue, val = nine\<rparr>,
       \<lparr>fqName = ''a_b'', helpText = ''help'', variableLabels = [],
        constLabels = [''l2'' \<mapsto> ''v2'', ''l3'' \<mapsto> ''v3''], valueType = GaugeValue,
        val = ninetynine\<rparr>], None)"
proof -
  have lines: "splitLines [] ''a.a 1000 9 l1=v1\<newline>a.b 1001 99 l2=v2 l3=v3''
     = [''a.a 1000 9 l1=v1'', ''a.b 1001 99 l2=v2 l3=v3'']"
    by simp
  have f1: "Fields ''a.a 1000 9 l1=v1'' = [''a.a'', ''1000'', ''9'', ''l1=v1'']"
    by (simp add: Fields_def isSpace_def)
  have f2: "Fields ''a.b 1001 99 l2=v2 l3=v3'' = [''a.b'', ''1001'', ''99'', ''l2=v2'', ''l3=v3'']"
    by (simp add: Fields_def isSpace_def)
  have p1: "parseTcollectorValue L ''a.a 1000 9 l1=v1''
      = Inr \<lparr>Metric = ''a.a'', Timestamp = t1, Value = VFloat64 nine, Tags = [(''l1'', ''v1'')]\<rparr>"
    using t v m g Merge_single_fresh [OF r, of "''l1''" "[]" "''v1''"]
    by (simp add: parseTcollectorValue_def f1)
  have p2: "parseTcollectorValue L ''a.b 1001 99 l2=v2 l3=v3''
      = Inr \<lparr>Metric = ''a.b'', Timestamp = t2, Value = VFloat64 ninetynine,
             Tags = [(''l2'', ''v2''), (''l3'', ''v3'')]\<rparr>"
    using t v m g Merge_single_fresh [OF r, of "''l2''" "[]" "''v2''"]
      Merge_single_fresh [OF r, of "''l3''" "[(''l2'', ''v2'')]" "''v3''"]
    by (simp add: parseTcollectorValue_def f2)
  have l1: "tagLabels L [(''l1'', ''v1'')] = [''l1'' \<mapsto> ''v1'']"
    using tagLabels_map_of [OF r, of "[(''l1'', ''v1'')]"]
    by (simp add: makeValidPromName_map promNameKeeps_def)
  have l2: "tagLabels L [(''l2'', ''v2''), (''l3'', ''v3'')] = [''l2'' \<mapsto> ''v2'', ''l3'' \<mapsto> ''v3'']"
    using tagLabels_map_of [OF r, of "[(''l2'', ''v2''), (''l3'', ''v3'')]"]
    by (auto simp: makeValidPromName_map promNameKeeps_def)
  have nb: "TrimSpace ''a.a 1000 9 l1=v1'' \<noteq> []" "TrimSpace ''a.b 1001 99 l2=v2 l3=v3'' \<noteq> []"
    by (simp_all add: TrimSpace_Nil_iff isSpace_def)
  have fit: "\<not> MaxScanTokenSize \<le> byteLen ''a.a 1000 9 l1=v1''"
    "\<not> MaxScanTokenSize \<le> byteLen ''a.b 1001 99 l2=v2 l3=v3''"
    by (simp_all add: byteLen_def MaxScanTokenSize_def)
  have cr: "dropCR ''a.a 1000 9 l1=v1'' = ''a.a 1000 9 l1=v1''"
    "dropCR ''a.b 1001 99 l2=v2 l3=v3'' = ''a.b 1001 99 l2=v2 l3=v3''"
    by (simp_all add: dropCR_def)
  show ?thesis
    unfolding translateOpenTsdb_def lines
    by (simp add: fit cr nb p1 p2 dpointsToMetrics_def dpointMetric_def l1 l2
          makeValidPromName_map promNameKeeps_def)
qed

text \<open>
  Claim C7, as amended. The translation of the text \<open>a.a 1000 9 l1=v1\<close>, newline,
  \<open>a.b 1001 99 l2=v2 l3=v3\<close> is exactly two gauge metrics: \<open>a_a\<close> with the value read
  from \<open>9\<close> and the one label \<open>l1="v1"\<close>, then \<open>a_b\<close> with the value read from \<open>99\<close> and
  the labels \<open>l2="v2"\<close> and \<open>l3="v3"\<close>, whatever the order in which the tags are visited.
  The hypotheses say what the parsers of the other packages return on the tokens of this
  text. And every text with a non-blank line of fewer than three fields, such as a line
  without its value field, translates to no metric and an error.
\<close>

theorem translateOpenTsdb_test_input:
  "(range_visits_all L
      \<and> ParseInt L ''1000'' = Some t1 \<and> ParseInt L ''1001'' = Some t2
      \<and> ParseFloat L ''9'' = Some nine \<and> ParseFloat L ''99'' = Some ninetynine
      \<and> ValidTSDBString L ''a.a'' \<and> ValidTSDBString L ''a.b''
      \<and> ParseTags L ''l1=v1'' = Inr [(''l1'', ''v1'')]
      \<and> ParseTags L ''l2=v2'' = Inr [(''l2'', ''v2'')]
      \<and> ParseTags L ''l3=v3'' = Inr [(''l3'', ''v3'')]
    \<longrightarrow> translateOpenTsdb L ''a.a 1000 9 l1=v1\<newline>a.b 1001 99 l2=v2 l3=v3'' =
     ([\<lparr>fqName = ''a_a'', helpText = ''help'', variableLabels = [],
        constLabels = [''l1'' \<mapsto> ''v1''], valueType = GaugeValue, val = nine\<rparr>,
       \<lparr>fqName = ''a_b'', helpText = ''help'', variableLabels = [],
        constLabels = [''l2'' \<mapsto> ''v2'', ''l3'' \<mapsto> ''v3''], valueType = GaugeValue,
        val = ninetynine\<rparr>], None))
   \<and> ((\<exists>l \<in> set (inputLines input). \<not> blank l \<and> length (Fields l) < 3)
        \<longrightarrow> (\<exists>e. translateOpenTsdb L input = ([], Some e)))"
  using test_input_translation [of L t1 t2 nine ninetynine] short_line_fails [of input L]
  by blast

lemma refLib_range: "range_visits_all refLib"
  by (simp add: range_visits_all_def refLib_def)

text \<open>
  Claim C7 on the reference instance of the parsers, where \<open>9\<close> reads as 9 and \<open>99\<close>
  as 99, and on a text whose second line has no value field.
\<close>

theorem translateOpenTsdb_test_input_witness:
  "translateOpenTsdb refLib ''a.a 1000 9 l1=v1\<newline>a.b 1001 99 l2=v2 l3=v3'' =
     ([\<lparr>fqName = ''a_a'', helpText = ''help'', variableLabels = [],
        constLabels = [''l1'' \<mapsto> ''v1''], valueType = GaugeValue, val = 9\<rparr>,
       \<lparr>fqName = ''a_b'', helpText = ''help'', variableLabels = [],
        constLabels = [''l2'' \<mapsto> ''v2'', ''l3'' \<mapsto> ''v3''], valueType = GaugeValue,
        val = 99\<rparr>], None)
   \<and> (\<exists>e. translateOpenTsdb refLib ''a.a 1000 9 l1=v1\<newline>a.b 1001'' = ([], Some e))"
proof -
  have h: "range_visits_all refLib
      \<and> ParseInt refLib ''1000'' = Some 1000 \<and> ParseInt refLib ''1001'' = Some 1001
      \<and> ParseFloat refLib ''9'' = Some 9 \<and> ParseFloat refLib ''99'' = Some 99
      \<and> ValidTSDBString refLib ''a.a'' \<and> ValidTSDBString refLib ''a.b''
      \<and> ParseTags refLib ''l1=v1'' = Inr [(''l1'', ''v1'')]
      \<and> ParseTags refLib ''l2=v2'' = Inr [(''l2'', ''v2'')]
      \<and> ParseTags refLib ''l3=v3'' = Inr [(''l3'', ''v3'')]"
    using refLib_range by (simp add: lib_eval)
  have s: "\<exists>l \<in> set (inputLines ''a.a 1000 9 l1=v1\<newline>a.b 1001''). \<not> blank l \<and> length (Fields l) < 3"
    by (simp add: bad_lines nonblank1) (simp add: Fields_def isSpace_def)
  show ?thesis
    using h s translateOpenTsdb_test_input [of refLib 1000 1001 9 99 "''a.a 1000 9 l1=v1\<newline>a.b 1001''"]
    by blast
qed

text \<open>
  Claim C7 as stated fails on a blank line: the text \<open>a 1 2\<close>, newline, a space,
  newline has a second line with no field at all, fewer than three, yet it translates
  to one metric and no error, since the loop skips blank lines.
\<close>

theorem blank_line_is_skipped:
  "inputLines ''a 1 2\<newline> \<newline>'' = [''a 1 2'', '' '']
   \<and> length (Fields '' '') = 0
   \<and> translateOpenTsdb refLib ''a 1 2\<newline> \<newline>''
       = ([\<lparr>fqName = ''a'', helpText = ''help'', variableLabels = [],
            constLabels = Map.empty, valueType = GaugeValue, val = 2\<rparr>], None)"
proof -
  have l: "inputLines ''a 1 2\<newline> \<newline>'' = [''a 1 2'', '' '']" by (simp add: text_eval)
  have f: "length (Fields '' '') = 0" by (simp add: text_eval)
  have sp: "splitLines [] ''a 1 2\<newline> \<newline>'' = [''a 1 2'', '' '']" by simp
  have p: "parseTcollectorValue refLib ''a 1 2''
     = Inr \<lparr>Metric = ''a'', Timestamp = 1, Value = VFloat64 2, Tags = []\<rparr>"
    by (simp add: text_eval lib_eval)
  have nb: "TrimSpace ''a 1 2'' \<noteq> []" by (simp add: TrimSpace_Nil_iff isSpace_def)
  have b: "TrimSpace '' '' = []" by (simp add: TrimSpace_Nil_iff isSpace_def)
  have lab: "tagLabels refLib [] = Map.empty" by (simp add: tagLabels_def refLib_def)
  have t: "translateOpenTsdb refLib ''a 1 2\<newline> \<newline>''
       = ([\<lparr>fqName = ''a'', helpText = ''help'', variableLabels = [],
            constLabels = Map.empty, valueType = GaugeValue, val = 2\<rparr>], None)"
    unfolding translateOpenTsdb_def sp
    by (simp add: byteLen_def MaxScanTokenSize_def dropCR_def nb b p
          dpointsToMetrics_def dpointMetric_def lab makeValidPromName_map promNameKeeps_def)
  show ?thesis using l f t by simp
qed

subsection \<open>Label values\<close>

lemma distinct_map_comp_fst:
  "distinct (map (f \<circ> fst) xs) \<Longrightarrow> distinct (map fst xs)"
proof -
  assume "distinct (map (f \<circ> fst) xs)"
  then have "distinct (map f (map fst xs))" by simp
  then show ?thesis by (simp only: distinct_map)
qed

lemma parse_Tags_subset:
  assumes "range_visits_all L" and "parseTcollectorValue L line = Inr dp"
  shows "set (Tags dp) \<subseteq> set (lineTags L line)"
  using parseTagTokens_set [OF assms(1), of "Fields line ! 0" "drop 3 (Fields line)" "[]" "Tags dp"]
    parse_Inr_Tags [OF assms(2)]
  by (simp add: lineTags_def)

lemma parse_Tags_mset:
  assumes "range_visits_all L" and "parseTcollectorValue L line = Inr dp"
    and "distinct (map fst (lineTags L line))"
  shows "mset (Tags dp) = mset (lineTags L line)"
  using parseTagTokens_fresh [OF assms(1), of "Fields line ! 0" "drop 3 (Fields line)" "[]" "Tags dp"]
    parse_Inr_Tags [OF assms(2)] assms(3)
  by (simp add: lineTags_def)

text \<open>
  Claim C10, as amended. For a line that parses, every label of the emitted metric is the
  sanitized key of one of the line's tags with that tag's value, unchanged; and when no
  two tags of the line have the same sanitized key, the metric carries the value of every
  tag of the line, unchanged, under the tag's sanitized key.
\<close>

theorem label_values_as_parsed:
  "range_visits_all L \<and> parseTcollectorValue L line = Inr dp \<longrightarrow>
     (\<forall>k' v'. constLabels (dpointMetric L dp) k' = Some v'
        \<longrightarrow> (\<exists>k. (k, v') \<in> set (lineTags L line) \<and> k' = makeValidPromName k))
   \<and> (distinct (map (makeValidPromName \<circ> fst) (lineTags L line))
        \<longrightarrow> (\<forall>k v. (k, v) \<in> set (lineTags L line)
               \<longrightarrow> constLabels (dpointMetric L dp) (makeValidPromName k) = Some v))"
proof (intro impI, elim conjE)
  assume r: "range_visits_all L" and p: "parseTcollectorValue L line = Inr dp"
  have lab: "constLabels (dpointMetric L dp) = tagLabels L (Tags dp)"
    by (simp add: dpointMetric_def)
  have sub: "set (Tags dp) \<subseteq> set (lineTags L line)" using r p by (rule parse_Tags_subset)
  have a: "\<forall>k' v'. constLabels (dpointMetric L dp) k' = Some v'
        \<longrightarrow> (\<exists>k. (k, v') \<in> set (lineTags L line) \<and> k' = makeValidPromName k)"
    using tagLabels_Some [OF r, of "Tags dp"] sub unfolding lab by blast
  have b: "distinct (map (makeValidPromName \<circ> fst) (lineTags L line))
        \<longrightarrow> (\<forall>k v. (k, v) \<in> set (lineTags L line)
               \<longrightarrow> constLabels (dpointMetric L dp) (makeValidPromName k) = Some v)"
  proof (intro impI allI)
    fix k v
    assume d: "distinct (map (makeValidPromName \<circ> fst) (lineTags L line))"
      and kv: "(k, v) \<in> set (lineTags L line)"
    have m: "mset (Tags dp) = mset (lineTags L line)"
      using r p distinct_map_comp_fst [OF d] by (rule parse_Tags_mset)
    then have "mset (map (makeValidPromName \<circ> fst) (Tags dp))
             = mset (map (makeValidPromName \<circ> fst) (lineTags L line))"
      by (metis mset_map)
    then have d': "distinct (map (makeValidPromName \<circ> fst) (Tags dp))"
      using d by (metis mset_eq_imp_distinct_iff)
    have "(k, v) \<in> set (Tags dp)" using m kv by (metis mset_eq_setD)
    then show "constLabels (dpointMetric L dp) (makeValidPromName k) = Some v"
      unfolding lab using tagLabels_distinct [OF r d'] by blast
  qed
  show "(\<forall>k' v'. constLabels (dpointMetric L dp) k' = Some v'
        \<longrightarrow> (\<exists>k. (k, v') \<in> set (lineTags L line) \<and> k' = makeValidPromName k))
   \<and> (distinct (map (makeValidPromName \<circ> fst) (lineTags L line))
        \<longrightarrow> (\<forall>k v. (k, v) \<in> set (lineTags L line)
               \<longrightarrow> constLabels (dpointMetric L dp) (makeValidPromName k) = Some v))"
    using a b by (rule conjI)
qed

text \<open>
  An instance of claim C10: the value \<open>web-01.example.com\<close> of the tag \<open>host.name\<close> is
  carried as written, under the label \<open>host_name\<close>.
\<close>

theorem label_values_as_parsed_witness:
  "constLabels (dpointMetric refLib
       \<lparr>Metric = ''a.a'', Timestamp = 1000, Value = VFloat64 9,
        Tags = [(''host.name'', ''web-01.example.com'')]\<rparr>) ''host_name''
     = Some ''web-01.example.com''"
proof -
  have p: "parseTcollectorValue refLib ''a.a 1000 9 host.name=web-01.example.com''
     = Inr \<lparr>Metric = ''a.a'', Timestamp = 1000, Value = VFloat64 9,
        Tags = [(''host.name'', ''web-01.example.com'')]\<rparr>"
    by (simp add: text_eval lib_eval)
  have t: "lineTags refLib ''a.a 1000 9 host.name=web-01.example.com''
     = [(''host.name'', ''web-01.example.com'')]"
    by (simp add: lineTags_def tagsOf_def text_eval lib_eval)
  have n: "makeValidPromName ''host.name'' = ''host_name''"
    by (simp add: makeValidPromName_map promNameKeeps_def)
  show ?thesis
    using label_values_as_parsed [of refLib "''a.a 1000 9 host.name=web-01.example.com''"
        "\<lparr>Metric = ''a.a'', Timestamp = 1000, Value = VFloat64 9,
        Tags = [(''host.name'', ''web-01.example.com'')]\<rparr>"]
      refLib_range p t n
    by simp
qed

text \<open>
  Claim C10 as stated fails: the line \<open>m 1 2 k=a k=b\<close> translates without error and has
  the tag token \<open>k=a\<close>, but the emitted metric carries \<open>k="b"\<close> only, since \<open>Merge\<close>
  overwrites the value of a key that is already present.
\<close>

theorem label_value_overwritten:
  "lineTags refLib ''m 1 2 k=a k=b'' = [(''k'', ''a''), (''k'', ''b'')]
   \<and> translateOpenTsdb refLib ''m 1 2 k=a k=b''
       = ([\<lparr>fqName = ''m'', helpText = ''help'', variableLabels = [],
            constLabels = [''k'' \<mapsto> ''b''], valueType = GaugeValue, val = 2\<rparr>], None)
   \<and> [''k'' \<mapsto> ''b''] (makeValidPromName ''k'') \<noteq> Some ''a''"
proof -
  have t: "lineTags refLib ''m 1 2 k=a k=b'' = [(''k'', ''a''), (''k'', ''b'')]"
    by (simp add: lineTags_def tagsOf_def text_eval lib_eval)
  have p: "parseTcollectorValue refLib ''m 1 2 k=a k=b''
     = Inr \<lparr>Metric = ''m'', Timestamp = 1, Value = VFloat64 2, Tags = [(''k'', ''b'')]\<rparr>"
    by (simp add: text_eval lib_eval)
  have l: "tagLabels refLib [(''k'', ''b'')] = [''k'' \<mapsto> ''b'']"
    by (simp add: tagLabels_def refLib_def makeValidPromName_map promNameKeeps_def)
  have nb: "TrimSpace ''m 1 2 k=a k=b'' \<noteq> []"
    by (simp add: TrimSpace_Nil_iff isSpace_def)
  have r: "translateOpenTsdb refLib ''m 1 2 k=a k=b''
       = ([\<lparr>fqName = ''m'', helpText = ''help'', variableLabels = [],
            constLabels = [''k'' \<mapsto> ''b''], valueType = GaugeValue, val = 2\<rparr>], None)"
    by (simp add: translateOpenTsdb_def byteLen_def MaxScanTokenSize_def dropCR_def nb p
          dpointsToMetrics_def dpointMetric_def l makeValidPromName_map promNameKeeps_def)
  have n: "[''k'' \<mapsto> ''b''] (makeValidPromName ''k'') \<noteq> Some ''a''"
    by (simp add: makeValidPromName_map promNameKeeps_def)
  show ?thesis using t r n by simp
qed

subsection \<open>Timestamps\<close>

lemma dpointMetric_Timestamp: "dpointMetric L (dp\<lparr>Timestamp := ts\<rparr>) = dpointMetric L dp"
  by (simp add: dpointMetric_def)

lemma parse_fields_cong:
  assumes f1: "Fields l1 = m # t1 # rest" and f2: "Fields l2 = m # t2 # rest"
    and i1: "ParseInt L t1 = Some n1" and i2: "ParseInt L t2 = Some n2"
  shows "(isl (parseTcollectorValue L l1) \<longleftrightarrow> isl (parseTcollectorValue L l2))
       \<and> (\<forall>dp1 dp2. parseTcollectorValue L l1 = Inr dp1 \<longrightarrow> parseTcollectorValue L l2 = Inr dp2
             \<longrightarrow> dpointMetric L dp1 = dpointMetric L dp2)"
proof (cases rest)
  case Nil
  then show ?thesis using f1 f2 by (simp add: parseTcollectorValue_def)
next
  case (Cons v toks)
  show ?thesis
  proof (cases "ParseFloat L v")
    case None
    then show ?thesis using f1 f2 i1 i2 Cons by (simp add: parseTcollectorValue_def)
  next
    case (Some x)
    show ?thesis
    proof (cases "ValidTSDBString L m")
      case False
      then show ?thesis using f1 f2 i1 i2 Cons Some by (simp add: parseTcollectorValue_def)
    next
      case True
      show ?thesis
      proof (cases "parseTagTokens L m toks []")
        case (Inl e)
        then show ?thesis using f1 f2 i1 i2 Cons Some True by (simp add: parseTcollectorValue_def)
      next
        case (Inr tags)
        then show ?thesis using f1 f2 i1 i2 Cons Some True
          by (simp add: parseTcollectorValue_def dpointMetric_def)
      qed
    qed
  qed
qed

lemma sameExceptTimestamp_parse:
  assumes "sameExceptTimestamp L l1 l2"
  shows "(blank l1 \<longleftrightarrow> blank l2)
       \<and> (isl (parseTcollectorValue L l1) \<longleftrightarrow> isl (parseTcollectorValue L l2))
       \<and> (\<forall>dp1 dp2. parseTcollectorValue L l1 = Inr dp1 \<longrightarrow> parseTcollectorValue L l2 = Inr dp2
             \<longrightarrow> dpointMetric L dp1 = dpointMetric L dp2)"
proof (cases "l1 = l2")
  case True
  then show ?thesis by auto
next
  case False
  then obtain m t1 t2 rest n1 n2 where f: "Fields l1 = m # t1 # rest" "Fields l2 = m # t2 # rest"
    and i: "ParseInt L t1 = Some n1" "ParseInt L t2 = Some n2"
    using assms by (auto simp: sameExceptTimestamp_def split: list.splits)
  have "\<not> blank l1" "\<not> blank l2" using f by (simp_all add: blank_iff_no_fields)
  then show ?thesis using parse_fields_cong [OF f i] by simp
qed

lemma scanLoop_sameExceptTimestamp:
  assumes "list_all2 (\<lambda>r1 r2. sameExceptTimestamp L (dropCR r1) (dropCR r2)) raws1 raws2"
    and "\<forall>r \<in> set raws1. byteLen r < MaxScanTokenSize"
    and "\<forall>r \<in> set raws2. byteLen r < MaxScanTokenSize"
    and "map (dpointMetric L) dps1 = map (dpointMetric L) dps2"
  shows "fst (scanLoop L raws1 dps1) = fst (scanLoop L raws2 dps2)
       \<and> (snd (scanLoop L raws1 dps1) = None \<longleftrightarrow> snd (scanLoop L raws2 dps2) = None)"
  using assms
proof (induction raws1 raws2 arbitrary: dps1 dps2 rule: list_all2_induct)
  case Nil
  then show ?case by (simp add: dpointsToMetrics_def)
next
  case (Cons r1 raws1 r2 raws2)
  have fit: "\<not> MaxScanTokenSize \<le> byteLen r1" "\<not> MaxScanTokenSize \<le> byteLen r2"
    using Cons.prems by auto
  have rest: "\<forall>r \<in> set raws1. byteLen r < MaxScanTokenSize"
    "\<forall>r \<in> set raws2. byteLen r < MaxScanTokenSize"
    using Cons.prems by auto
  note same = sameExceptTimestamp_parse [OF Cons.hyps(1)]
  show ?case
  proof (cases "blank (dropCR r1)")
    case True
    then have "blank (dropCR r2)" using same by simp
    then show ?thesis using True fit Cons.IH [OF rest Cons.prems(3)] by (simp add: blank_def)
  next
    case nb: False
    then have nb2: "\<not> blank (dropCR r2)" using same by simp
    show ?thesis
    proof (cases "parseTcollectorValue L (dropCR r1)")
      case (Inl e)
      then obtain e2 where "parseTcollectorValue L (dropCR r2) = Inl e2"
        using same by (cases "parseTcollectorValue L (dropCR r2)") auto
      then show ?thesis using Inl nb nb2 fit by (simp add: blank_def)
    next
      case (Inr dp1)
      then obtain dp2 where dp2: "parseTcollectorValue L (dropCR r2) = Inr dp2"
        using same by (cases "parseTcollectorValue L (dropCR r2)") auto
      have "dpointMetric L dp1 = dpointMetric L dp2" using same Inr dp2 by blast
      then have "map (dpointMetric L) (dps1 @ [dp1]) = map (dpointMetric L) (dps2 @ [dp2])"
        using Cons.prems(3) by simp
      then show ?thesis using Inr dp2 nb nb2 fit Cons.IH [OF rest] by (simp add: blank_def)
    qed
  qed
qed

text \<open>
  Claim C8, as amended. For two input texts none of whose lines reaches the scanner's
  buffer size, and whose lines are pairwise the same but for timestamp fields that parse
  as integers, the translation returns the same metrics, and an error for both or for
  neither. And \<open>dpointsToMetrics\<close> returns the same metrics whatever the timestamps of
  the data points: a metric carries nothing of the timestamp.
\<close>

theorem timestamps_do_not_influence:
  "(fitsScanner in1 \<and> fitsScanner in2
      \<and> list_all2 (sameExceptTimestamp L) (inputLines in1) (inputLines in2)
    \<longrightarrow> fst (translateOpenTsdb L in1) = fst (translateOpenTsdb L in2)
        \<and> (snd (translateOpenTsdb L in1) = None) = (snd (translateOpenTsdb L in2) = None))
   \<and> dpointsToMetrics L (map (\<lambda>dp. dp\<lparr>Timestamp := ts\<rparr>) dps) = dpointsToMetrics L dps"
proof -
  have a: "fitsScanner in1 \<and> fitsScanner in2
      \<and> list_all2 (sameExceptTimestamp L) (inputLines in1) (inputLines in2)
    \<longrightarrow> fst (translateOpenTsdb L in1) = fst (translateOpenTsdb L in2)
        \<and> (snd (translateOpenTsdb L in1) = None) = (snd (translateOpenTsdb L in2) = None)"
  proof (intro impI, elim conjE)
    assume f1: "fitsScanner in1" and f2: "fitsScanner in2"
      and s: "list_all2 (sameExceptTimestamp L) (inputLines in1) (inputLines in2)"
    have s': "list_all2 (\<lambda>r1 r2. sameExceptTimestamp L (dropCR r1) (dropCR r2))
                 (splitLines [] in1) (splitLines [] in2)"
      using s by (simp add: inputLines_def list_all2_map1 list_all2_map2)
    show "fst (translateOpenTsdb L in1) = fst (translateOpenTsdb L in2)
        \<and> (snd (translateOpenTsdb L in1) = None) = (snd (translateOpenTsdb L in2) = None)"
      unfolding translateOpenTsdb_def
      using f1 f2 by (intro scanLoop_sameExceptTimestamp [OF s']) (simp_all add: fitsScanner_def)
  qed
  have b: "dpointsToMetrics L (map (\<lambda>dp. dp\<lparr>Timestamp := ts\<rparr>) dps) = dpointsToMetrics L dps"
    by (simp add: dpointsToMetrics_def dpointMetric_Timestamp comp_def)
  show ?thesis using a b by (rule conjI)
qed

lemma fieldsFrom_nonspace:
  "\<not> isSpace c \<Longrightarrow> fieldsFrom cur (replicate n c @ s) = fieldsFrom (cur @ replicate n c) s"
proof (induction n arbitrary: cur)
  case 0
  show ?case by simp
next
  case (Suc n)
  have "fieldsFrom (cur @ [c]) (replicate n c @ s) = fieldsFrom ((cur @ [c]) @ replicate n c) s"
    using Suc.prems by (rule Suc.IH)
  then show ?case using Suc.prems by (simp add: replicate_append_same)
qed

lemma parseDigits_zeros: "parseDigits 0 (replicate n (CHR ''0'') @ s) = parseDigits 0 s"
  by (induction n) (simp_all add: digitVal_def)

lemma byteLen_zeros: "byteLen (replicate n (CHR ''0'')) = n"
  by (induction n) (auto simp: byteLen_def)

lemma padded_Fields:
  "Fields paddedTimestampLine = [''a'', replicate MaxScanTokenSize (CHR ''0'') @ ''1'', ''2'']"
proof -
  have z: "\<not> isSpace (CHR ''0'')" by (simp add: isSpace_def)
  have "fieldsFrom [] (replicate MaxScanTokenSize (CHR ''0'') @ ''1 2'')
      = fieldsFrom (replicate MaxScanTokenSize (CHR ''0'')) ''1 2''"
    using fieldsFrom_nonspace [OF z, of "[]" MaxScanTokenSize "''1 2''"] by simp
  then show ?thesis
    by (simp add: paddedTimestampLine_def Fields_def isSpace_def)
qed

lemma padded_ParseInt: "ParseInt refLib (replicate MaxScanTokenSize (CHR ''0'') @ ''1'') = Some 1"
proof -
  obtain n where n: "MaxScanTokenSize = Suc n"
    using MaxScanTokenSize_pos by (cases MaxScanTokenSize) auto
  have "parseDigits 0 (replicate MaxScanTokenSize (CHR ''0'') @ ''1'') = Some 1"
    by (simp add: parseDigits_zeros digitVal_def)
  then show ?thesis
    by (simp add: refLib_def refParseInt_def n)
qed

text \<open>
  Claim C8 as stated fails: the lines \<open>a 1 2\<close> and \<open>paddedTimestampLine\<close> differ in
  their timestamp field only, which parses as the integer 1 in both, but the first
  translates to one metric and the second, longer than the scanner's buffer, to no metric
  and the scanner's error.
\<close>

theorem timestamp_length_influences:
  "inputLines ''a 1 2'' = [''a 1 2''] \<and> inputLines paddedTimestampLine = [paddedTimestampLine]
   \<and> sameExceptTimestamp refLib ''a 1 2'' paddedTimestampLine
   \<and> translateOpenTsdb refLib ''a 1 2''
       = ([\<lparr>fqName = ''a'', helpText = ''help'', variableLabels = [],
            constLabels = Map.empty, valueType = GaugeValue, val = 2\<rparr>], None)
   \<and> translateOpenTsdb refLib paddedTimestampLine = ([], Some ErrTooLong)"
proof -
  have l1: "inputLines ''a 1 2'' = [''a 1 2'']" by (simp add: text_eval)
  have sp: "splitLines [] paddedTimestampLine = [paddedTimestampLine]"
    by (simp add: paddedTimestampLine_def splitLines_no_newline)
  have "dropCR paddedTimestampLine = paddedTimestampLine"
    by (simp add: paddedTimestampLine_def dropCR_def)
  then have l2: "inputLines paddedTimestampLine = [paddedTimestampLine]"
    by (simp add: inputLines_def sp)
  have f1: "Fields ''a 1 2'' = [''a'', ''1'', ''2'']" by (simp add: text_eval)
  have i1: "ParseInt refLib ''1'' = Some 1" by (simp add: lib_eval)
  have same: "sameExceptTimestamp refLib ''a 1 2'' paddedTimestampLine"
    by (simp add: sameExceptTimestamp_def f1 padded_Fields i1 padded_ParseInt)
  have p: "parseTcollectorValue refLib ''a 1 2''
     = Inr \<lparr>Metric = ''a'', Timestamp = 1, Value = VFloat64 2, Tags = []\<rparr>"
    by (simp add: text_eval lib_eval)
  have nb: "TrimSpace ''a 1 2'' \<noteq> []" by (simp add: TrimSpace_Nil_iff isSpace_def)
  have lab: "tagLabels refLib [] = Map.empty" by (simp add: tagLabels_def refLib_def)
  have t1: "translateOpenTsdb refLib ''a 1 2''
       = ([\<lparr>fqName = ''a'', helpText = ''help'', variableLabels = [],
            constLabels = Map.empty, valueType = GaugeValue, val = 2\<rparr>], None)"
    by (simp add: translateOpenTsdb_def byteLen_def MaxScanTokenSize_def dropCR_def nb p
          dpointsToMetrics_def dpointMetric_def lab makeValidPromName_map promNameKeeps_def)
  have "byteLen ''a '' = 2" "byteLen ''1 2'' = 3" by (simp_all add: byteLen_def)
  then have "byteLen paddedTimestampLine = 2 + (MaxScanTokenSize + 3)"
    by (simp only: paddedTimestampLine_def byteLen_append byteLen_zeros)
  then have t2: "translateOpenTsdb refLib paddedTimestampLine = ([], Some ErrTooLong)"
    by (simp add: translateOpenTsdb_def sp)
  show ?thesis using l1 l2 same t1 t2 by simp
qed


text \<open>An instance of claim C8: the text of the test with other timestamps.\<close>

theorem timestamps_do_not_influence_witness:
  "fst (translateOpenTsdb refLib ''a.a 1000 9 l1=v1\<newline>a.b 1001 99 l2=v2 l3=v3'')
     = fst (translateOpenTsdb refLib ''a.a 2000 9 l1=v1\<newline>a.b 2001 99 l2=v2 l3=v3'')"
proof -
  have f2: "fitsScanner ''a.a 2000 9 l1=v1\<newline>a.b 2001 99 l2=v2 l3=v3''"
    by (simp add: text_eval)
  have l2: "inputLines ''a.a 2000 9 l1=v1\<newline>a.b 2001 99 l2=v2 l3=v3''
     = [''a.a 2000 9 l1=v1'', ''a.b 2001 99 l2=v2 l3=v3'']"
    by (simp add: text_eval)
  have i: "ParseInt refLib ''1000'' = Some 1000" "ParseInt refLib ''1001'' = Some 1001"
    "ParseInt refLib ''2000'' = Some 2000" "ParseInt refLib ''2001'' = Some 2001"
    by (simp_all add: lib_eval)
  have s1: "sameExceptTimestamp refLib ''a.a 1000 9 l1=v1'' ''a.a 2000 9 l1=v1''"
    by (simp add: sameExceptTimestamp_def Fields_def isSpace_def i)
  have s2: "sameExceptTimestamp refLib ''a.b 1001 99 l2=v2 l3=v3'' ''a.b 2001 99 l2=v2 l3=v3''"
    by (simp add: sameExceptTimestamp_def Fields_def isSpace_def i)
  have h: "list_all2 (sameExceptTimestamp refLib)
     (inputLines ''a.a 1000 9 l1=v1\<newline>a.b 1001 99 l2=v2 l3=v3'')
     (inputLines ''a.a 2000 9 l1=v1\<newline>a.b 2001 99 l2=v2 l3=v3'')"
    using s1 s2 by (simp add: ex_lines l2)
  show ?thesis
    using ex_fits f2 h
      timestamps_do_not_influence [of "''a.a 1000 9 l1=v1\<newline>a.b 1001 99 l2=v2 l3=v3''"
        "''a.a 2000 9 l1=v1\<newline>a.b 2001 99 l2=v2 l3=v3''" refLib]
    by blast
qed

section \<open>Properties of the gatherer\<close>

lemma gatherLoop_eq: "gatherLoop r fams = fams @ map (sortFamily \<circ> snd) r"
  by (induction r fams rule: gatherLoop.induct) auto

lemma Gather_eq: "Gather r = (map (sortFamily \<circ> snd) r, None)"
  by (simp add: Gather_def gatherLoop_eq)

lemma sortLabels_sorted: "sorted (map lpName (Label (sortLabels m)))"
  by (simp add: sortLabels_def)

lemma sortLabels_mset: "mset (Label (sortLabels m)) = mset (Label m)"
  by (simp add: sortLabels_def)

lemma sortLabels_idem: "sortLabels (sortLabels m) = sortLabels m"
  by (simp add: sortLabels_def sort_key_id_if_sorted)

lemma sortFamily_idem: "sortFamily (sortFamily fam) = sortFamily fam"
  by (simp add: sortFamily_def sortLabels_idem comp_def)

lemma sort_labels_canonical:
  assumes "mset ls1 = mset ls2" and "distinct (map lpName ls1)"
  shows "sort_key lpName ls1 = sort_key lpName ls2"
proof -
  have "inj_on lpName (set ls1)" using assms(2) by (simp add: distinct_map)
  then show ?thesis using assms(1) by (rule sort_key_eq_sort_key [rotated])
qed

text \<open>
  Claim C9. \<open>Gather\<close> returns no error and every family of the parse result, in the
  order of the loop; in every metric returned the label pairs are in ascending order of
  their names; the families and metrics are the given ones but for the order of the label
  pairs; gathering what \<open>Gather\<close> returned changes nothing; and two metrics with the
  same label pairs, of distinct names, in whatever order, come out with the same sequence
  of label pairs.
\<close>

theorem Gather_sorts_labels:
  "snd (Gather r) = None
   \<and> map famName (fst (Gather r)) = map (famName \<circ> snd) r
   \<and> list_all (\<lambda>fam. list_all (\<lambda>m. sorted (map lpName (Label m))) (famMetric fam)) (fst (Gather r))
   \<and> list_all2 (\<lambda>e fam. famRest fam = famRest (snd e)
        \<and> list_all2 (\<lambda>m m'. mset (Label m') = mset (Label m) \<and> metricRest m' = metricRest m)
            (famMetric (snd e)) (famMetric fam)) r (fst (Gather r))
   \<and> fst (Gather (zip (map fst r) (fst (Gather r)))) = fst (Gather r)
   \<and> (mset (Label m1) = mset (Label m2) \<and> distinct (map lpName (Label m1))
        \<longrightarrow> Label (sortLabels m1) = Label (sortLabels m2))"
proof -
  have a: "snd (Gather r) = None" by (simp add: Gather_eq)
  have b: "map famName (fst (Gather r)) = map (famName \<circ> snd) r"
    by (simp add: Gather_eq sortFamily_def)
  have c: "list_all (\<lambda>fam. list_all (\<lambda>m. sorted (map lpName (Label m))) (famMetric fam)) (fst (Gather r))"
    by (simp add: Gather_eq list_all_iff sortFamily_def sortLabels_sorted)
  have d: "list_all2 (\<lambda>e fam. famRest fam = famRest (snd e)
        \<and> list_all2 (\<lambda>m m'. mset (Label m') = mset (Label m) \<and> metricRest m' = metricRest m)
            (famMetric (snd e)) (famMetric fam)) r (fst (Gather r))"
    by (simp add: Gather_eq list_all2_map2 sortFamily_def sortLabels_def list_all2_refl)
  have "map (sortFamily \<circ> snd) (zip (map fst r) (map (sortFamily \<circ> snd) r)) = map (sortFamily \<circ> snd) r"
    by (induction r) (simp_all add: sortFamily_idem)
  then have e: "fst (Gather (zip (map fst r) (fst (Gather r)))) = fst (Gather r)"
    by (simp add: Gather_eq)
  have f: "mset (Label m1) = mset (Label m2) \<and> distinct (map lpName (Label m1))
        \<longrightarrow> Label (sortLabels m1) = Label (sortLabels m2)"
    using sort_labels_canonical [of "Label m1" "Label m2"] by (simp add: sortLabels_def)
  show ?thesis using a b c d e f by blast
qed

text \<open>
  An instance of claim C9: the labels \<open>job\<close>, \<open>zone\<close>, \<open>host\<close> come out as \<open>host\<close>,
  \<open>job\<close>, \<open>zone\<close>, and the label pairs \<open>b\<close>, \<open>a\<close> come out as the pairs \<open>a\<close>, \<open>b\<close> do.
\<close>

theorem Gather_sorts_labels_witness:
  "map (map lpName \<circ> Label) (famMetric (hd (fst (Gather exampleFamilies)))) = [[''host'', ''job'', ''zone'']]
   \<and> Label (sortLabels \<lparr>Label = [\<lparr>lpName = ''b'', lpValue = ''1''\<rparr>, \<lparr>lpName = ''a'', lpValue = ''2''\<rparr>], metricRest = ()\<rparr>)
     = Label (sortLabels \<lparr>Label = [\<lparr>lpName = ''a'', lpValue = ''2''\<rparr>, \<lparr>lpName = ''b'', lpValue = ''1''\<rparr>], metricRest = ()\<rparr>)"
proof -
  have "map (map lpName \<circ> Label) (famMetric (hd (fst (Gather exampleFamilies)))) = [[''host'', ''job'', ''zone'']]"
    by (simp add: Gather_def exampleFamilies_def sortFamily_def sortLabels_def)
  moreover have "Label (sortLabels \<lparr>Label = [\<lparr>lpName = ''b'', lpValue = ''1''\<rparr>, \<lparr>lpName = ''a'', lpValue = ''2''\<rparr>], metricRest = ()\<rparr>)
     = Label (sortLabels \<lparr>Label = [\<lparr>lpName = ''a'', lpValue = ''2''\<rparr>, \<lparr>lpName = ''b'', lpValue = ''1''\<rparr>], metricRest = ()\<rparr>)"
  proof -
    have h: "mset (Label \<lparr>Label = [\<lparr>lpName = ''b'', lpValue = ''1''\<rparr>, \<lparr>lpName = ''a'', lpValue = ''2''\<rparr>], metricRest = ()\<rparr>)
        = mset (Label \<lparr>Label = [\<lparr>lpName = ''a'', lpValue = ''2''\<rparr>, \<lparr>lpName = ''b'', lpValue = ''1''\<rparr>], metricRest = ()\<rparr>)
      \<and> distinct (map lpName (Label \<lparr>Label = [\<lparr>lpName = ''b'', lpValue = ''1''\<rparr>, \<lparr>lpName = ''a'', lpValue = ''2''\<rparr>], metricRest = ()\<rparr>))"
      by simp
    show ?thesis
      using h Gather_sorts_labels [of "[]" "\<lparr>Label = [\<lparr>lpName = ''b'', lpValue = ''1''\<rparr>, \<lparr>lpName = ''a'', lpValue = ''2''\<rparr>], metricRest = ()\<rparr>"
       "\<lparr>Label = [\<lparr>lpName = ''a'', lpValue = ''2''\<rparr>, \<lparr>lpName = ''b'', lpValue = ''1''\<rparr>], metricRest = ()\<rparr>"]
      by blast
  qed
  ultimately show ?thesis by (rule conjI)
qed

section \<open>Properties of runCommand\<close>

lemma waitLoop_returns:
  "CtxDone \<in> set cs \<or> 2 \<le> n + length (filter (\<lambda>c. c = ChDone) cs) \<or> d
     \<Longrightarrow> waitLoop cs n d \<noteq> None"
proof (induction cs arbitrary: n d)
  case Nil
  then show ?case by auto
next
  case (Cons c cs)
  show ?case
  proof (cases "\<not> d \<and> n < 2")
    case False
    then show ?thesis by auto
  next
    case True
    show ?thesis
    proof (cases c)
      case CtxDone
      have "waitLoop cs n True \<noteq> None" by (rule Cons.IH) simp
      then show ?thesis using True CtxDone by simp
    next
      case ChDone
      have "waitLoop cs (n + 1) d \<noteq> None" using Cons.prems True ChDone by (intro Cons.IH) auto
      then show ?thesis using True ChDone by simp
    qed
  qed
qed

lemma waitLoop_blocks:
  "waitLoop cs n d = None \<Longrightarrow> CtxDone \<notin> set cs \<and> n + length (filter (\<lambda>c. c = ChDone) cs) < 2 \<and> \<not> d"
  using waitLoop_returns [of cs n d] by force

lemma runStarted_result:
  assumes "runStarted r = Some (out, err)"
  shows "out = stdoutBuf r
    \<and> (ctxObserved r \<longrightarrow> err = Some (ctxErr (ctxCause r)))
    \<and> (\<not> ctxObserved r \<and> exitStatus r \<noteq> Some (Exited 0)
          \<longrightarrow> (\<exists>st. exitStatus r = Some st \<and> err = Some (ExitError st)))
    \<and> (\<not> ctxObserved r \<and> exitStatus r = Some (Exited 0) \<and> stderrBuf r \<noteq> []
          \<longrightarrow> err = Some (ErrGotStderr (stderrBuf r)))
    \<and> (\<not> ctxObserved r \<and> exitStatus r = Some (Exited 0) \<and> stderrBuf r = []
          \<longrightarrow> err = None)"
  using assms
  by (auto simp: runStarted_def ctxObserved_def cmdWait_def Let_def
           split: option.splits if_splits)

lemma classOf_ctxErr: "classOf (Some (ctxErr c)) = CancelledOrTimedOut"
  by (cases c) simp_all

lemma not_fired_not_observed: "\<not> tokenFired r \<Longrightarrow> \<not> ctxObserved r"
  by (simp add: tokenFired_def)

text \<open>
  Claim C1, as amended. For a call of \<open>runCommand\<close> in which both pipes were created and
  the child was started, and which returns: the output returned is what the buffer of the
  standard output holds, complete or not; if the token fired and the waiting loop saw
  it, the error is the context's error, whatever the state of the process; if the token
  did not fire, then if the process exited nonzero or by a signal the error is the exit
  error, otherwise if the buffer of the standard error is not empty the error reports
  that output, otherwise the error is nil. So, unless the token fired unseen by the
  loop, the class of the result is the one the four rules give. The call returns when
  the context is done or both copies finish, and the child ends. A call in which a pipe
  cannot be created or the child cannot be started returns the empty output and that
  failure as its error.
\<close>

theorem runCommand_classification:
  "(runCommand (Started r) = Some (out, err) \<longrightarrow>
      out = stdoutBuf r
      \<and> (ctxObserved r \<longrightarrow> err = Some (ctxErr (ctxCause r)))
      \<and> (\<not> tokenFired r \<and> exitStatus r \<noteq> Some (Exited 0)
            \<longrightarrow> (\<exists>st. exitStatus r = Some st \<and> err = Some (ExitError st)))
      \<and> (\<not> tokenFired r \<and> exitStatus r = Some (Exited 0) \<and> stderrBuf r \<noteq> []
            \<longrightarrow> err = Some (ErrGotStderr (stderrBuf r)))
      \<and> (\<not> tokenFired r \<and> exitStatus r = Some (Exited 0) \<and> stderrBuf r = []
            \<longrightarrow> err = None)
      \<and> (ctxObserved r \<or> \<not> tokenFired r
            \<longrightarrow> classOf err
                = specClass (tokenFired r) (exitStatus r \<noteq> Some (Exited 0)) (stderrBuf r \<noteq> [])))
   \<and> ((CtxDone \<in> set (selects r) \<or> 2 \<le> length (filter (\<lambda>c. c = ChDone) (selects r)))
        \<and> exitStatus r \<noteq> None \<longrightarrow> runCommand (Started r) \<noteq> None)
   \<and> runCommand (StdoutPipeFails e) = Some ([], Some (ErrStdoutPipe e))
   \<and> runCommand (StderrPipeFails e) = Some ([], Some (ErrStderrPipe e))
   \<and> runCommand (StartFails e) = Some ([], Some (ErrStart e))"
proof -
  have a: "runCommand (Started r) = Some (out, err) \<longrightarrow>
      out = stdoutBuf r
      \<and> (ctxObserved r \<longrightarrow> err = Some (ctxErr (ctxCause r)))
      \<and> (\<not> tokenFired r \<and> exitStatus r \<noteq> Some (Exited 0)
            \<longrightarrow> (\<exists>st. exitStatus r = Some st \<and> err = Some (ExitError st)))
      \<and> (\<not> tokenFired r \<and> exitStatus r = Some (Exited 0) \<and> stderrBuf r \<noteq> []
            \<longrightarrow> err = Some (ErrGotStderr (stderrBuf r)))
      \<and> (\<not> tokenFired r \<and> exitStatus r = Some (Exited 0) \<and> stderrBuf r = []
            \<longrightarrow> err = None)
      \<and> (ctxObserved r \<or> \<not> tokenFired r
            \<longrightarrow> classOf err
                = specClass (tokenFired r) (exitStatus r \<noteq> Some (Exited 0)) (stderrBuf r \<noteq> []))"
  proof
    assume run: "runCommand (Started r) = Some (out, err)"
    then have rs: "runStarted r = Some (out, err)" by simp
    note res = runStarted_result [OF rs]
    have cls: "ctxObserved r \<or> \<not> tokenFired r
            \<longrightarrow> classOf err
                = specClass (tokenFired r) (exitStatus r \<noteq> Some (Exited 0)) (stderrBuf r \<noteq> [])"
    proof (cases "ctxObserved r")
      case True
      then show ?thesis using res by (simp add: specClass_def classOf_ctxErr tokenFired_def)
    next
      case False
      then show ?thesis using res by (auto simp: specClass_def)
    qed
    show "out = stdoutBuf r
      \<and> (ctxObserved r \<longrightarrow> err = Some (ctxErr (ctxCause r)))
      \<and> (\<not> tokenFired r \<and> exitStatus r \<noteq> Some (Exited 0)
            \<longrightarrow> (\<exists>st. exitStatus r = Some st \<and> err = Some (ExitError st)))
      \<and> (\<not> tokenFired r \<and> exitStatus r = Some (Exited 0) \<and> stderrBuf r \<noteq> []
            \<longrightarrow> err = Some (ErrGotStderr (stderrBuf r)))
      \<and> (\<not> tokenFired r \<and> exitStatus r = Some (Exited 0) \<and> stderrBuf r = []
            \<longrightarrow> err = None)
      \<and> (ctxObserved r \<or> \<not> tokenFired r
            \<longrightarrow> classOf err
                = specClass (tokenFired r) (exitStatus r \<noteq> Some (Exited 0)) (stderrBuf r \<noteq> []))"
      using res cls not_fired_not_observed [of r] by blast
  qed
  have b: "(CtxDone \<in> set (selects r) \<or> 2 \<le> length (filter (\<lambda>c. c = ChDone) (selects r)))
        \<and> exitStatus r \<noteq> None \<longrightarrow> runCommand (Started r) \<noteq> None"
  proof
    assume h: "(CtxDone \<in> set (selects r) \<or> 2 \<le> length (filter (\<lambda>c. c = ChDone) (selects r)))
        \<and> exitStatus r \<noteq> None"
    then have "waitLoop (selects r) 0 False \<noteq> None"
      by (intro waitLoop_returns) auto
    then show "runCommand (Started r) \<noteq> None"
      using h by (auto simp: runStarted_def Let_def split: option.splits)
  qed
  show ?thesis using a b by simp
qed

text \<open>
  Instances of claim C1: a run cut by the deadline with partial output, a run that
  prints \<open>hello\<close> and exits 0, a run that exits 0 after writing to its standard error,
  and a run that exits 1; in the last three the token does not fire.
\<close>

theorem runCommand_classification_witness:
  "runCommand (Started \<lparr>selects = [ChDone, CtxDone], firedUnseen = False, ctxCause = ByDeadline,
       exitStatus = Some (Signaled 9), stdoutBuf = ''partial'', stderrBuf = ''oops''\<rparr>)
     = Some (''partial'', Some DeadlineExceeded)
   \<and> classOf (Some DeadlineExceeded) = CancelledOrTimedOut
   \<and> runCommand (Started \<lparr>selects = [ChDone, ChDone], firedUnseen = False, ctxCause = ByDeadline,
       exitStatus = Some (Exited 0), stdoutBuf = ''hello'', stderrBuf = []\<rparr>)
     = Some (''hello'', None)
   \<and> runCommand (Started \<lparr>selects = [ChDone, ChDone], firedUnseen = False, ctxCause = ByCancel,
       exitStatus = Some (Exited 0), stdoutBuf = ''out'', stderrBuf = ''err''\<rparr>)
     = Some (''out'', Some (ErrGotStderr ''err''))
   \<and> runCommand (Started \<lparr>selects = [ChDone, ChDone], firedUnseen = False, ctxCause = ByCancel,
       exitStatus = Some (Exited 1), stdoutBuf = ''out'', stderrBuf = []\<rparr>)
     = Some (''out'', Some (ExitError (Exited 1)))"
proof -
  let ?r1 = "\<lparr>selects = [ChDone, CtxDone], firedUnseen = False, ctxCause = ByDeadline,
       exitStatus = Some (Signaled 9), stdoutBuf = ''partial'', stderrBuf = ''oops''\<rparr>"
  let ?r2 = "\<lparr>selects = [ChDone, ChDone], firedUnseen = False, ctxCause = ByDeadline,
       exitStatus = Some (Exited 0), stdoutBuf = ''hello'', stderrBuf = []\<rparr>"
  let ?r3 = "\<lparr>selects = [ChDone, ChDone], firedUnseen = False, ctxCause = ByCancel,
       exitStatus = Some (Exited 0), stdoutBuf = ''out'', stderrBuf = ''err''\<rparr>"
  let ?r4 = "\<lparr>selects = [ChDone, ChDone], firedUnseen = False, ctxCause = ByCancel,
       exitStatus = Some (Exited 1), stdoutBuf = ''out'', stderrBuf = []\<rparr>"
  have ret: "runCommand (Started ?r1) \<noteq> None" "runCommand (Started ?r2) \<noteq> None"
    "runCommand (Started ?r3) \<noteq> None" "runCommand (Started ?r4) \<noteq> None"
    using runCommand_classification [of ?r1] runCommand_classification [of ?r2]
      runCommand_classification [of ?r3] runCommand_classification [of ?r4]
    by simp_all
  have obs: "ctxObserved ?r1" "\<not> tokenFired ?r2" "\<not> tokenFired ?r3" "\<not> tokenFired ?r4"
    by (simp_all add: ctxObserved_def tokenFired_def)
  have c1: "runCommand (Started ?r1) = Some (''partial'', Some DeadlineExceeded)"
  proof -
    obtain out err where e: "runCommand (Started ?r1) = Some (out, err)" using ret(1) by auto
    then show ?thesis using runCommand_classification [of ?r1 out err] obs(1) by simp
  qed
  have c2: "runCommand (Started ?r2) = Some (''hello'', None)"
  proof -
    obtain out err where e: "runCommand (Started ?r2) = Some (out, err)" using ret(2) by auto
    then show ?thesis using runCommand_classification [of ?r2 out err] obs(2) by simp
  qed
  have c3: "runCommand (Started ?r3) = Some (''out'', Some (ErrGotStderr ''err''))"
  proof -
    obtain out err where e: "runCommand (Started ?r3) = Some (out, err)" using ret(3) by auto
    then show ?thesis using runCommand_classification [of ?r3 out err] obs(3) by simp
  qed
  have c4: "runCommand (Started ?r4) = Some (''out'', Some (ExitError (Exited 1)))"
  proof -
    obtain out err where e: "runCommand (Started ?r4) = Some (out, err)" using ret(4) by auto
    then show ?thesis using runCommand_classification [of ?r4 out err] obs(4) by simp
  qed
  show ?thesis using c1 c2 c3 c4 by simp
qed

text \<open>
  Claim C1 as stated fails on a call whose child cannot be started: the token did not
  fire, no process exited nonzero or by a signal and nothing was written to the standard
  error, so the four rules give a success, but the call returns an error.
\<close>

theorem runCommand_start_failure:
  "runCommand (StartFails ''no such file or directory'')
     = Some ([], Some (ErrStart ''no such file or directory''))
   \<and> classOf (Some (ErrStart ''no such file or directory'')) = ExecutionFailed
   \<and> specClass False False False = Success"
  by (simp add: specClass_def)

text \<open>
  A deadline that passes after both copies have finished, while the child still runs, is
  not seen by the waiting loop: the child is killed and \<open>runCommand\<close> returns the exit
  error of the killed child, not \<open>context.DeadlineExceeded\<close>, which the comment of the
  function promises whenever the context reaches its done state.
\<close>

lemma runCommand_deadline_after_copies:
  "tokenFired \<lparr>selects = [ChDone, ChDone], firedUnseen = True, ctxCause = ByDeadline,
       exitStatus = Some (Signaled 9), stdoutBuf = ''out'', stderrBuf = []\<rparr>
   \<and> runCommand (Started \<lparr>selects = [ChDone, ChDone], firedUnseen = True, ctxCause = ByDeadline,
       exitStatus = Some (Signaled 9), stdoutBuf = ''out'', stderrBuf = []\<rparr>)
     = Some (''out'', Some (ExitError (Signaled 9)))"
  by (simp add: tokenFired_def runStarted_def cmdWait_def)

end
